theory Spec2Isabelle
  imports Main "HOL-Library.Tree" "HOL-Library.Word"
begin

section \<open>Memory, faults and the page provider\<close>

text \<open>
  Addresses and \<open>size_t\<close> values are natural numbers, and \<open>0\<close> is \<open>NULL\<close>.  The
  code subtracts sizes only where the result cannot wrap (\<open>best->size - size\<close> for a
  block the search accepted, \<open>remaining_size - sizeof(header)\<close> under the test
  \<open>remaining_size > sizeof(header)\<close>), and the addresses it adds up stay inside a
  mapped page, so no arithmetic of the model leaves the range of the C types.  The only
  truncating subtraction of the model is \<open>ptr - sizeof(header)\<close> in the two
  \<open>free\<close> functions, which the statements use for pointers that an allocation
  returned (\<open>header + sizeof(header)\<close>).  Stored heights are unbounded integers.

  The memory of an allocator is the header stored at each address; payload bytes belong
  to the harness and are kept apart (the allocators write headers only).  Reading a
  header gives what was last written at its address: the headers the code touches are
  those of blocks, and the invariants below keep blocks from overlapping.

  A call of the C code either returns, or stops the process (a dereferenced \<open>NULL\<close>
  pointer, a failed \<open>assert\<close>), or never returns.  A call that may loop has the result
  type \<open>(fault + 'a) option\<close>: \<open>None\<close> is the call that never returns,
  \<open>Some (Inl f)\<close> the call that stops the process with fault \<open>f\<close>, and
  \<open>Some (Inr v)\<close> the call that returns \<open>v\<close>.  A function without a loop
  returns \<open>fault + 'a\<close>.
\<close>

type_synonym addr = nat

datatype fault = NullDeref | AssertFailed

definition and_then ::
  "(fault + 'a) option \<Rightarrow> ('a \<Rightarrow> (fault + 'b) option) \<Rightarrow> (fault + 'b) option" where
  "and_then x f =
     (case x of None \<Rightarrow> None | Some (Inl e) \<Rightarrow> Some (Inl e) | Some (Inr v) \<Rightarrow> f v)"

lemma and_then_simps [simp]:
  "and_then None f = None"
  "and_then (Some (Inl e)) f = Some (Inl e)"
  "and_then (Some (Inr v)) f = f v"
  by (simp_all add: and_then_def)

lemma and_then_mono [partial_function_mono]:
  assumes "mono_option B" and "\<And>y. mono_option (\<lambda>f. C y f)"
  shows "mono_option (\<lambda>f. and_then (B f) (\<lambda>y. C y f))"
proof -
  have eq: "\<And>f. and_then (B f) (\<lambda>y. C y f) =
      Option.bind (B f) (\<lambda>r. case r of Inl e \<Rightarrow> Some (Inl e) | Inr v \<Rightarrow> C v f)"
    by (simp add: and_then_def split: option.splits sum.splits)
  show ?thesis
    unfolding eq
  proof (rule bind_mono[OF assms(1)])
    fix y :: "fault + 'c"
    show "mono_option (\<lambda>f. case y of Inl e \<Rightarrow> Some (Inl e) | Inr v \<Rightarrow> C v f)"
      by (cases y) (simp_all add: assms(2) option.const_mono)
  qed
qed

text \<open>
  \<open>stats.mmap_size\<close> of \<open>main.c\<close>, and the operating system's \<open>mmap\<close>: the model hands
  out consecutive fresh regions and never runs out, \<open>next_page\<close> being the address of
  the next one.
\<close>

record system =
  next_page :: addr
  mmap_size :: nat

definition mmap_from_system :: "nat \<Rightarrow> system \<Rightarrow> fault + (addr \<times> system)" where
  "mmap_from_system sz sys =
     (if sz mod 4096 \<noteq> 0 then Inl AssertFailed
      else
        let sys1 = sys\<lparr>mmap_size := mmap_size sys + sz\<rparr>;
            ptr = next_page sys1;
            sys2 = sys1\<lparr>next_page := next_page sys1 + sz\<rparr>
        in if ptr = 0 then Inl AssertFailed else Inr (ptr, sys2))"

section \<open>The best-fit allocator\<close>

text \<open>
  Modelled from the spec: \<open>max\<close> of \<open>common.c\<close>, which is not among the sources;
  the spec recomputes \<open>height = 1 + max(height(left), height(right))\<close>.
\<close>

definition max_c :: "int \<Rightarrow> int \<Rightarrow> int" where
  "max_c a b = (if a < b then b else a)"

text \<open>
  \<open>best_fit_metadata_t\<close>: \<open>size_t size\<close>, two pointers and \<open>int height\<close>; on the LP64
  targets the Makefile builds for, \<open>sizeof(best_fit_metadata_t) = 32\<close>.
\<close>

record best_fit_metadata_t =
  bf_size :: nat
  bf_left :: addr
  bf_right :: addr
  bf_height :: int

definition sizeof_best_fit_metadata_t :: nat where
  "sizeof_best_fit_metadata_t = 32"

type_synonym bf_mem = "addr \<Rightarrow> best_fit_metadata_t"

text \<open>
  The state the best-fit code works on: the headers in memory (\<open>bf_mem\<close>, the header
  stored at each address), \<open>best_fit_tree.free_head\<close>, and the page provider.
  \<open>best_fit_dummy\<close> is the address of \<open>best_fit_tree.dummy\<close>.
\<close>

record best_fit_state =
  bf_free_head :: addr
  bf_mem :: bf_mem
  bf_sys :: system

definition best_fit_dummy :: addr where
  "best_fit_dummy = 8"

definition best_fit_balance_tree :: "addr \<Rightarrow> bf_mem \<Rightarrow> fault + (addr \<times> bf_mem)" where
  "best_fit_balance_tree tree m =
     (if tree = 0 then Inl NullDeref
      else
        let left_height = (if bf_left (m tree) \<noteq> 0 then bf_height (m (bf_left (m tree))) else 0);
            right_height = (if bf_right (m tree) \<noteq> 0 then bf_height (m (bf_right (m tree))) else 0);
            m1 = m(tree := (m tree)\<lparr>bf_height := 1 + max_c left_height right_height\<rparr>)
        in
          if left_height + 1 < right_height then
            (let right = bf_right (m1 tree) in
             if right = 0 then Inl NullDeref
             else
               let right_left = bf_left (m1 right);
                   m2 = m1(right := (m1 right)\<lparr>bf_left := tree\<rparr>);
                   m3 = m2(tree := (m2 tree)\<lparr>bf_right := right_left\<rparr>)
               in Inr (right, m3))
          else if right_height + 1 < left_height then
            (let left = bf_left (m1 tree) in
             if left = 0 then Inl NullDeref
             else
               let left_right = bf_right (m1 left);
                   m2 = m1(left := (m1 left)\<lparr>bf_right := tree\<rparr>);
                   m3 = m2(tree := (m2 tree)\<lparr>bf_left := left_right\<rparr>)
               in Inr (left, m3))
          else Inr (tree, m1))"

partial_function (option) best_fit_insert_recursive ::
  "addr \<Rightarrow> addr \<Rightarrow> bf_mem \<Rightarrow> (fault + (addr \<times> bf_mem)) option" where
  "best_fit_insert_recursive metadata tree m =
     (if tree = 0 then Some (Inr (metadata, m))
      else if metadata = 0 then Some (Inl NullDeref)
      else if bf_size (m metadata) < bf_size (m tree) then
        and_then (best_fit_insert_recursive metadata (bf_left (m tree)) m)
          (\<lambda>(r, m1). Some (best_fit_balance_tree tree (m1(tree := (m1 tree)\<lparr>bf_left := r\<rparr>))))
      else
        and_then (best_fit_insert_recursive metadata (bf_right (m tree)) m)
          (\<lambda>(r, m1). Some (best_fit_balance_tree tree (m1(tree := (m1 tree)\<lparr>bf_right := r\<rparr>)))))"

declare best_fit_insert_recursive.simps [code]

text \<open>The loop \<open>while (root->left) root = root->left\<close> of \<open>best_fit_remove_recursive\<close>.\<close>

partial_function (option) best_fit_leftmost :: "bf_mem \<Rightarrow> addr \<Rightarrow> (fault + addr) option" where
  "best_fit_leftmost m root =
     (if root = 0 then Some (Inl NullDeref)
      else if bf_left (m root) \<noteq> 0 then best_fit_leftmost m (bf_left (m root))
      else Some (Inr root))"

declare best_fit_leftmost.simps [code]

partial_function (option) best_fit_remove_recursive ::
  "addr \<Rightarrow> addr \<Rightarrow> bf_mem \<Rightarrow> (fault + (addr \<times> bf_mem)) option" where
  "best_fit_remove_recursive metadata tree m =
     (if tree = 0 then Some (Inl NullDeref)
      else if metadata = tree then
        (if bf_left (m tree) = 0 then Some (Inr (bf_right (m tree), m))
         else if bf_right (m tree) = 0 then Some (Inr (bf_left (m tree), m))
         else
           and_then (best_fit_leftmost m (bf_right (m tree))) (\<lambda>root.
           and_then (best_fit_remove_recursive root (bf_right (m tree)) m) (\<lambda>(r, m1).
             let m2 = m1(root := (m1 root)\<lparr>bf_right := r\<rparr>);
                 m3 = m2(root := (m2 root)\<lparr>bf_left := bf_left (m2 tree)\<rparr>)
             in Some (Inr (root, m3)))))
      else if metadata = 0 then Some (Inl NullDeref)
      else if bf_size (m tree) < bf_size (m metadata) then
        and_then (best_fit_remove_recursive metadata (bf_right (m tree)) m)
          (\<lambda>(r, m1). Some (best_fit_balance_tree tree (m1(tree := (m1 tree)\<lparr>bf_right := r\<rparr>))))
      else
        and_then (best_fit_remove_recursive metadata (bf_left (m tree)) m)
          (\<lambda>(r, m1). Some (best_fit_balance_tree tree (m1(tree := (m1 tree)\<lparr>bf_left := r\<rparr>)))))"

declare best_fit_remove_recursive.simps [code]

definition best_fit_insert_to_tree ::
  "addr \<Rightarrow> best_fit_state \<Rightarrow> (fault + best_fit_state) option" where
  "best_fit_insert_to_tree metadata s =
     and_then (best_fit_insert_recursive metadata (bf_free_head s) (bf_mem s))
       (\<lambda>(r, m1). Some (Inr (s\<lparr>bf_free_head := r, bf_mem := m1\<rparr>)))"

definition best_fit_remove_from_tree ::
  "addr \<Rightarrow> best_fit_state \<Rightarrow> (fault + best_fit_state) option" where
  "best_fit_remove_from_tree metadata s =
     and_then (best_fit_remove_recursive metadata (bf_free_head s) (bf_mem s))
       (\<lambda>(r, m1). Some (Inr (s\<lparr>bf_free_head := r, bf_mem := m1\<rparr>)))"

definition best_fit_initialize :: "best_fit_state \<Rightarrow> best_fit_state" where
  "best_fit_initialize s =
     s\<lparr>bf_free_head := best_fit_dummy,
       bf_mem := (bf_mem s)(best_fit_dummy :=
         \<lparr>bf_size = 0, bf_left = 0, bf_right = 0, bf_height = 1\<rparr>)\<rparr>"

text \<open>
  The search loop of \<open>best_fit_malloc\<close>: \<open>metadata\<close> walks down from the root, \<open>best\<close>
  is the last node seen whose size is not below the request.
\<close>

partial_function (option) best_fit_search :: "bf_mem \<Rightarrow> nat \<Rightarrow> addr \<Rightarrow> addr \<Rightarrow> addr option" where
  "best_fit_search m sz metadata best =
     (if metadata \<noteq> 0 then
        (if bf_size (m metadata) < sz then best_fit_search m sz (bf_right (m metadata)) best
         else best_fit_search m sz (bf_left (m metadata)) metadata)
      else Some best)"

declare best_fit_search.simps [code]

text \<open>
  The four assignments with which \<open>best_fit_malloc\<close> formats a header, for a fresh
  page and for the remainder of a split block: \<open>size\<close>, \<open>left = NULL\<close>,
  \<open>right = NULL\<close>, \<open>height = 1\<close>.
\<close>

definition new_metadata_at :: "addr \<Rightarrow> nat \<Rightarrow> bf_mem \<Rightarrow> bf_mem" where
  "new_metadata_at a sz m =
     (let m1 = m(a := (m a)\<lparr>bf_size := sz\<rparr>);
          m2 = m1(a := (m1 a)\<lparr>bf_left := 0\<rparr>);
          m3 = m2(a := (m2 a)\<lparr>bf_right := 0\<rparr>)
      in m3(a := (m3 a)\<lparr>bf_height := 1\<rparr>))"

partial_function (option) best_fit_malloc ::
  "nat \<Rightarrow> best_fit_state \<Rightarrow> (fault + (addr \<times> best_fit_state)) option" where
  "best_fit_malloc sz s =
     Option.bind (best_fit_search (bf_mem s) sz (bf_free_head s) 0) (\<lambda>best.
       if best = 0 then
         (let buffer_size = 4096 in
          and_then (Some (mmap_from_system buffer_size (bf_sys s))) (\<lambda>(metadata, sys1).
            let m1 = new_metadata_at metadata (buffer_size - sizeof_best_fit_metadata_t) (bf_mem s)
            in and_then (best_fit_insert_to_tree metadata (s\<lparr>bf_mem := m1, bf_sys := sys1\<rparr>))
                 (\<lambda>s1. best_fit_malloc sz s1)))
       else
         (let ptr = best + sizeof_best_fit_metadata_t;
              remaining_size = bf_size (bf_mem s best) - sz
          in and_then (best_fit_remove_from_tree best s) (\<lambda>s1.
               let m1 = bf_mem s1;
                   m2 = m1(best := (m1 best)\<lparr>bf_left := 0\<rparr>);
                   m3 = m2(best := (m2 best)\<lparr>bf_right := 0\<rparr>);
                   m4 = m3(best := (m3 best)\<lparr>bf_height := 1\<rparr>)
               in
                 if remaining_size > sizeof_best_fit_metadata_t then
                   (let m5 = m4(best := (m4 best)\<lparr>bf_size := sz\<rparr>);
                        new_metadata = ptr + sz;
                        m6 = new_metadata_at new_metadata
                               (remaining_size - sizeof_best_fit_metadata_t) m5
                    in and_then (best_fit_insert_to_tree new_metadata (s1\<lparr>bf_mem := m6\<rparr>))
                         (\<lambda>s2. Some (Inr (ptr, s2))))
                 else Some (Inr (ptr, s1\<lparr>bf_mem := m4\<rparr>)))))"

declare best_fit_malloc.simps [code]

definition best_fit_free :: "addr \<Rightarrow> best_fit_state \<Rightarrow> (fault + best_fit_state) option" where
  "best_fit_free ptr s =
     (let metadata = ptr - sizeof_best_fit_metadata_t
      in best_fit_insert_to_tree metadata s)"

section \<open>The first-fit allocator\<close>

text \<open>
  \<open>first_fit_metadata_t\<close>: \<open>size_t size\<close> and the \<open>next\<close> pointer;
  \<open>sizeof(first_fit_metadata_t) = 16\<close> on LP64.  \<open>first_fit_dummy\<close> is the address
  of \<open>first_fit_heap.dummy\<close>.
\<close>

record first_fit_metadata_t =
  ff_size :: nat
  ff_next :: addr

definition sizeof_first_fit_metadata_t :: nat where
  "sizeof_first_fit_metadata_t = 16"

type_synonym ff_mem = "addr \<Rightarrow> first_fit_metadata_t"

record first_fit_state =
  ff_free_head :: addr
  ff_mem :: ff_mem
  ff_sys :: system

definition first_fit_dummy :: addr where
  "first_fit_dummy = 8"

definition first_fit_add_to_free_list ::
  "addr \<Rightarrow> first_fit_state \<Rightarrow> fault + first_fit_state" where
  "first_fit_add_to_free_list metadata s =
     (if metadata = 0 then Inl NullDeref
      else if ff_next (ff_mem s metadata) \<noteq> 0 then Inl AssertFailed
      else
        let m1 = (ff_mem s)(metadata := (ff_mem s metadata)\<lparr>ff_next := ff_free_head s\<rparr>)
        in Inr (s\<lparr>ff_mem := m1, ff_free_head := metadata\<rparr>))"

definition first_fit_remove_from_free_list ::
  "addr \<Rightarrow> addr \<Rightarrow> first_fit_state \<Rightarrow> fault + first_fit_state" where
  "first_fit_remove_from_free_list metadata prev s =
     (if metadata = 0 then Inl NullDeref
      else
        let s1 = (if prev \<noteq> 0
                  then s\<lparr>ff_mem := (ff_mem s)(prev :=
                         (ff_mem s prev)\<lparr>ff_next := ff_next (ff_mem s metadata)\<rparr>)\<rparr>
                  else s\<lparr>ff_free_head := ff_next (ff_mem s metadata)\<rparr>)
        in Inr (s1\<lparr>ff_mem := (ff_mem s1)(metadata := (ff_mem s1 metadata)\<lparr>ff_next := 0\<rparr>)\<rparr>))"

definition first_fit_initialize :: "first_fit_state \<Rightarrow> first_fit_state" where
  "first_fit_initialize s =
     s\<lparr>ff_free_head := first_fit_dummy,
       ff_mem := (ff_mem s)(first_fit_dummy := \<lparr>ff_size = 0, ff_next = 0\<rparr>)\<rparr>"

text \<open>
  The scan loop of \<open>first_fit_malloc\<close>; it returns the final \<open>metadata\<close> and
  \<open>prev\<close>.
\<close>

partial_function (option) first_fit_scan ::
  "ff_mem \<Rightarrow> nat \<Rightarrow> addr \<Rightarrow> addr \<Rightarrow> (addr \<times> addr) option" where
  "first_fit_scan m sz metadata prev =
     (if metadata \<noteq> 0 \<and> ff_size (m metadata) < sz
      then first_fit_scan m sz (ff_next (m metadata)) metadata
      else Some (metadata, prev))"

declare first_fit_scan.simps [code]

partial_function (option) first_fit_malloc ::
  "nat \<Rightarrow> first_fit_state \<Rightarrow> (fault + (addr \<times> first_fit_state)) option" where
  "first_fit_malloc sz s =
     Option.bind (first_fit_scan (ff_mem s) sz (ff_free_head s) 0) (\<lambda>(metadata, prev).
       if metadata = 0 then
         (let buffer_size = 4096 in
          and_then (Some (mmap_from_system buffer_size (ff_sys s))) (\<lambda>(metadata, sys1).
            let m1 = (ff_mem s)(metadata := (ff_mem s metadata)
                       \<lparr>ff_size := buffer_size - sizeof_first_fit_metadata_t\<rparr>);
                m2 = m1(metadata := (m1 metadata)\<lparr>ff_next := 0\<rparr>)
            in and_then
                 (Some (first_fit_add_to_free_list metadata (s\<lparr>ff_mem := m2, ff_sys := sys1\<rparr>)))
                 (\<lambda>s1. first_fit_malloc sz s1)))
       else
         (let ptr = metadata + sizeof_first_fit_metadata_t;
              remaining_size = ff_size (ff_mem s metadata) - sz
          in and_then (Some (first_fit_remove_from_free_list metadata prev s)) (\<lambda>s1.
               if remaining_size > sizeof_first_fit_metadata_t then
                 (let m1 = (ff_mem s1)(metadata := (ff_mem s1 metadata)\<lparr>ff_size := sz\<rparr>);
                      new_metadata = ptr + sz;
                      m2 = m1(new_metadata := (m1 new_metadata)
                             \<lparr>ff_size := remaining_size - sizeof_first_fit_metadata_t\<rparr>);
                      m3 = m2(new_metadata := (m2 new_metadata)\<lparr>ff_next := 0\<rparr>)
                  in and_then
                       (Some (first_fit_add_to_free_list new_metadata (s1\<lparr>ff_mem := m3\<rparr>)))
                       (\<lambda>s2. Some (Inr (ptr, s2))))
               else Some (Inr (ptr, s1)))))"

declare first_fit_malloc.simps [code]

definition first_fit_free :: "addr \<Rightarrow> first_fit_state \<Rightarrow> fault + first_fit_state" where
  "first_fit_free ptr s =
     (let metadata = ptr - sizeof_first_fit_metadata_t
      in first_fit_add_to_free_list metadata s)"

section \<open>The workload harness\<close>

text \<open>
  \<open>object_t\<close> of \<open>main.c\<close>; a \<open>char\<close> is a byte.  The harness works on the allocator
  under test (\<open>h_alloc\<close>, reached only through the function pointers \<open>malloc_func\<close> and
  \<open>free_func\<close>), on the payload bytes it writes and reads (\<open>h_bytes\<close>), on its local
  variable \<open>tag\<close>, on the vectors \<open>objects[0 .. epochs_per_cycle]\<close> and on
  \<open>stats.allocated_size\<close> and \<open>stats.freed_size\<close>.  The sizes, lifetimes and the 4%
  draw come from \<open>rand()\<close> and floating point; the model takes them as a list of draws
  \<open>(size, lifetime, never_freed)\<close>.
\<close>

record object_t =
  obj_ptr :: addr
  obj_size :: nat
  obj_tag :: "8 word"

record 'a harness =
  h_alloc :: 'a
  h_bytes :: "addr \<Rightarrow> 8 word"
  h_tag :: "8 word"
  h_objects :: "object_t list list"
  h_allocated_size :: nat
  h_freed_size :: nat

definition epochs_per_cycle :: nat where
  "epochs_per_cycle = 100"

definition memset :: "(addr \<Rightarrow> 8 word) \<Rightarrow> addr \<Rightarrow> 8 word \<Rightarrow> nat \<Rightarrow> (addr \<Rightarrow> 8 word)" where
  "memset b ptr c n = (\<lambda>a. if ptr \<le> a \<and> a < ptr + n then c else b a)"

definition vector_push :: "object_t list list \<Rightarrow> nat \<Rightarrow> object_t \<Rightarrow> object_t list list" where
  "vector_push objects i object = objects[i := objects ! i @ [object]]"

text \<open>The state of \<open>run_challenge\<close> before its first cycle: \<open>char tag = 0\<close>, empty vectors.\<close>

definition challenge_start :: "'a \<Rightarrow> (addr \<Rightarrow> 8 word) \<Rightarrow> 'a harness" where
  "challenge_start a b =
     \<lparr>h_alloc = a, h_bytes = b, h_tag = 0,
      h_objects = replicate (epochs_per_cycle + 1) [],
      h_allocated_size = 0, h_freed_size = 0\<rparr>"

text \<open>The allocation loop of one epoch, one draw for each object.\<close>

fun allocate_objects ::
  "(nat \<Rightarrow> 'a \<Rightarrow> (fault + (addr \<times> 'a)) option) \<Rightarrow> nat \<Rightarrow> (nat \<times> nat \<times> bool) list \<Rightarrow>
   'a harness \<Rightarrow> (fault + 'a harness) option" where
  "allocate_objects malloc_func epoch [] h = Some (Inr h)"
| "allocate_objects malloc_func epoch ((sz, lifetime, never_freed) # draws) h =
     (let h1 = h\<lparr>h_allocated_size := h_allocated_size h + sz\<rparr>
      in and_then (malloc_func sz (h_alloc h1)) (\<lambda>(ptr, a).
           let h2 = h1\<lparr>h_alloc := a, h_bytes := memset (h_bytes h1) ptr (h_tag h1) sz\<rparr>;
               object = \<lparr>obj_ptr = ptr, obj_size = sz, obj_tag = h_tag h2\<rparr>;
               tag1 = h_tag h2 + 1;
               tag2 = (if tag1 = 0 then tag1 + 1 else tag1);
               h3 = h2\<lparr>h_tag := tag2\<rparr>;
               h4 = (if never_freed
                     then h3\<lparr>h_objects := vector_push (h_objects h3) epochs_per_cycle object\<rparr>
                     else h3\<lparr>h_objects := vector_push (h_objects h3)
                                 ((epoch + lifetime) mod epochs_per_cycle) object\<rparr>)
           in allocate_objects malloc_func epoch draws h4))"

text \<open>The release loop of one epoch, over the objects of \<open>objects[epoch]\<close>.\<close>

definition tag_broken :: "(addr \<Rightarrow> 8 word) \<Rightarrow> object_t \<Rightarrow> bool" where
  "tag_broken b object =
     (b (obj_ptr object) \<noteq> obj_tag object \<or>
      b (obj_ptr object + obj_size object - 1) \<noteq> obj_tag object)"

fun release_objects ::
  "(addr \<Rightarrow> 'a \<Rightarrow> (fault + 'a) option) \<Rightarrow> object_t list \<Rightarrow> 'a harness \<Rightarrow>
   (fault + 'a harness) option" where
  "release_objects free_func [] h = Some (Inr h)"
| "release_objects free_func (object # rest) h =
     (let h1 = h\<lparr>h_freed_size := h_freed_size h + obj_size object\<rparr>
      in if tag_broken (h_bytes h1) object then Some (Inl AssertFailed)
         else and_then (free_func (obj_ptr object) (h_alloc h1))
                (\<lambda>a. release_objects free_func rest (h1\<lparr>h_alloc := a\<rparr>)))"

text \<open>One epoch of \<open>run_challenge\<close>: allocate, release \<open>objects[epoch]\<close>, clear it.\<close>

definition run_epoch ::
  "(nat \<Rightarrow> 'a \<Rightarrow> (fault + (addr \<times> 'a)) option) \<Rightarrow> (addr \<Rightarrow> 'a \<Rightarrow> (fault + 'a) option) \<Rightarrow>
   nat \<Rightarrow> (nat \<times> nat \<times> bool) list \<Rightarrow> 'a harness \<Rightarrow> (fault + 'a harness) option" where
  "run_epoch malloc_func free_func epoch draws h =
     and_then (allocate_objects malloc_func epoch draws h) (\<lambda>h1.
     and_then (release_objects free_func (h_objects h1 ! epoch) h1) (\<lambda>h2.
       Some (Inr (h2\<lparr>h_objects := (h_objects h2)[epoch := []]\<rparr>))))"

section \<open>States and shapes used in the statements\<close>

text \<open>
  The process before any initialisation: static storage is zero, the page provider has
  handed out nothing and its first page is at 4096.
\<close>

definition bf_boot :: best_fit_state where
  "bf_boot =
     \<lparr>bf_free_head = 0,
      bf_mem = (\<lambda>_. \<lparr>bf_size = 0, bf_left = 0, bf_right = 0, bf_height = 0\<rparr>),
      bf_sys = \<lparr>next_page = 4096, mmap_size = 0\<rparr>\<rparr>"

definition ff_boot :: first_fit_state where
  "ff_boot =
     \<lparr>ff_free_head = 0,
      ff_mem = (\<lambda>_. \<lparr>ff_size = 0, ff_next = 0\<rparr>),
      ff_sys = \<lparr>next_page = 4096, mmap_size = 0\<rparr>\<rparr>"

text \<open>
  \<open>bf_tree_at m p t\<close>: the pointer \<open>p\<close> is the root of a tree in memory \<open>m\<close> whose
  shape, and the addresses of whose nodes, are \<open>t\<close>.
\<close>

fun bf_tree_at :: "bf_mem \<Rightarrow> addr \<Rightarrow> addr tree \<Rightarrow> bool" where
  "bf_tree_at m p Leaf = (p = 0)"
| "bf_tree_at m p (Node l a r) =
     (p = a \<and> a \<noteq> 0 \<and> bf_tree_at m (bf_left (m a)) l \<and> bf_tree_at m (bf_right (m a)) r)"

text \<open>The AVL condition on the true heights of the subtrees.\<close>

fun avl_balanced :: "'a tree \<Rightarrow> bool" where
  "avl_balanced Leaf = True"
| "avl_balanced (Node l a r) =
     (abs (int (height l) - int (height r)) \<le> 1 \<and> avl_balanced l \<and> avl_balanced r)"

text \<open>The same condition on the heights the nodes store.\<close>

definition stored_height :: "bf_mem \<Rightarrow> addr \<Rightarrow> int" where
  "stored_height m p = (if p \<noteq> 0 then bf_height (m p) else 0)"

fun avl_stored :: "bf_mem \<Rightarrow> addr tree \<Rightarrow> bool" where
  "avl_stored m Leaf = True"
| "avl_stored m (Node l a r) =
     (abs (stored_height m (bf_left (m a)) - stored_height m (bf_right (m a))) \<le> 1 \<and>
      avl_stored m l \<and> avl_stored m r)"

section \<open>Block layout, free list and free tree: abstractions and invariants\<close>

text \<open>
  \<open>blocks_ok H sz B lim\<close>: the blocks whose headers are at the addresses \<open>B\<close>, each
  of \<open>H\<close> header bytes and \<open>sz\<close> payload bytes, lie below \<open>lim\<close>, do not
  overlap, and none is larger than a page holds.
\<close>

definition blocks_ok :: "nat \<Rightarrow> (addr \<Rightarrow> nat) \<Rightarrow> addr set \<Rightarrow> addr \<Rightarrow> bool" where
  "blocks_ok H sz B lim =
     ((\<forall>a\<in>B. a \<noteq> 0 \<and> a + H + sz a \<le> lim \<and> sz a \<le> 4096 - H) \<and>
      (\<forall>a\<in>B. \<forall>b\<in>B. a \<noteq> b \<longrightarrow> a + H + sz a \<le> b \<or> b + H + sz b \<le> a))"

text \<open>
  \<open>ff_list_at m p xs\<close>: following \<open>next\<close> from \<open>p\<close> visits exactly the headers
  \<open>xs\<close>, in this order, and ends at \<open>NULL\<close>.  \<open>ff_inv s xs A\<close>: the free list
  of \<open>s\<close> is \<open>xs\<close>, the headers of the allocated blocks are \<open>A\<close> (their
  \<open>next\<close> is \<open>NULL\<close>), and all blocks are laid out without overlap below the
  page provider's next page.  \<open>ff_map_page s\<close> is the state in which
  \<open>first_fit_malloc\<close> calls itself again: one page mapped, formatted as one block
  and pushed on the list.
\<close>

fun ff_list_at :: "ff_mem \<Rightarrow> addr \<Rightarrow> addr list \<Rightarrow> bool" where
  "ff_list_at m p [] = (p = 0)"
| "ff_list_at m p (a # as) = (p = a \<and> a \<noteq> 0 \<and> ff_list_at m (ff_next (m a)) as)"

definition ff_inv :: "first_fit_state \<Rightarrow> addr list \<Rightarrow> addr set \<Rightarrow> bool" where
  "ff_inv s xs A =
     (ff_list_at (ff_mem s) (ff_free_head s) xs \<and> distinct xs \<and> set xs \<inter> A = {} \<and>
      (\<forall>a\<in>A. ff_next (ff_mem s a) = 0) \<and>
      blocks_ok sizeof_first_fit_metadata_t (\<lambda>a. ff_size (ff_mem s a)) (set xs \<union> A)
        (next_page (ff_sys s)) \<and>
      next_page (ff_sys s) \<noteq> 0)"

definition ff_map_page :: "first_fit_state \<Rightarrow> first_fit_state" where
  "ff_map_page s =
     (let page = next_page (ff_sys s)
      in s\<lparr>ff_sys := (ff_sys s)\<lparr>mmap_size := mmap_size (ff_sys s) + 4096,
                                next_page := next_page (ff_sys s) + 4096\<rparr>,
           ff_mem := (ff_mem s)(page := (ff_mem s page)
              \<lparr>ff_size := 4096 - sizeof_first_fit_metadata_t, ff_next := ff_free_head s\<rparr>),
           ff_free_head := page\<rparr>)"

text \<open>
  For the tree of free blocks: \<open>bf_ordered f t\<close>, the keys \<open>f\<close> do not decrease
  along the in-order traversal; \<open>bf_findable f x t\<close>, the descent of
  \<open>best_fit_remove_recursive\<close> for \<open>x\<close> reaches \<open>x\<close>; \<open>bf_best f R t best\<close>,
  the result of the search loop of \<open>best_fit_malloc\<close> on \<open>t\<close>; \<open>bf_first t\<close>,
  the leftmost node.  \<open>bf_inv s t A\<close>: the free tree of \<open>s\<close> is \<open>t\<close>, it is
  ordered by size, the stored heights are positive, the headers of the allocated blocks
  are \<open>A\<close> (detached: no children, height 1), and all blocks are laid out without
  overlap below the page provider's next page.  \<open>bf_format_page s\<close> is the state
  in which \<open>best_fit_malloc\<close> inserts a freshly mapped page into the tree.
\<close>

fun bf_findable :: "(addr \<Rightarrow> nat) \<Rightarrow> addr \<Rightarrow> addr tree \<Rightarrow> bool" where
  "bf_findable f x Leaf = False"
| "bf_findable f x (Node l a r) =
     (x = a \<or> (if f a < f x then bf_findable f x r else bf_findable f x l))"

fun bf_best :: "(addr \<Rightarrow> nat) \<Rightarrow> nat \<Rightarrow> addr tree \<Rightarrow> addr \<Rightarrow> addr" where
  "bf_best f R Leaf best = best"
| "bf_best f R (Node l a r) best =
     (if f a < R then bf_best f R r best else bf_best f R l a)"

fun bf_first :: "addr tree \<Rightarrow> addr" where
  "bf_first Leaf = 0"
| "bf_first (Node l a r) = (if l = Leaf then a else bf_first l)"

definition bf_ordered :: "(addr \<Rightarrow> nat) \<Rightarrow> addr tree \<Rightarrow> bool" where
  "bf_ordered f t = sorted (map f (inorder t))"

definition bf_inv :: "best_fit_state \<Rightarrow> addr tree \<Rightarrow> addr set \<Rightarrow> bool" where
  "bf_inv s t A =
     (bf_tree_at (bf_mem s) (bf_free_head s) t \<and> distinct (inorder t) \<and>
      bf_ordered (\<lambda>a. bf_size (bf_mem s a)) t \<and>
      (\<forall>b\<in>set_tree t. 1 \<le> bf_height (bf_mem s b)) \<and>
      set_tree t \<inter> A = {} \<and>
      (\<forall>b\<in>A. bf_left (bf_mem s b) = 0 \<and> bf_right (bf_mem s b) = 0 \<and>
              bf_height (bf_mem s b) = 1) \<and>
      blocks_ok sizeof_best_fit_metadata_t (\<lambda>a. bf_size (bf_mem s a)) (set_tree t \<union> A)
        (next_page (bf_sys s)) \<and>
      next_page (bf_sys s) \<noteq> 0)"

definition bf_format_page :: "best_fit_state \<Rightarrow> best_fit_state" where
  "bf_format_page s =
     s\<lparr>bf_mem := new_metadata_at (next_page (bf_sys s))
                   (4096 - sizeof_best_fit_metadata_t) (bf_mem s),
       bf_sys := (bf_sys s)\<lparr>mmap_size := mmap_size (bf_sys s) + 4096,
                            next_page := next_page (bf_sys s) + 4096\<rparr>\<rparr>"

text \<open>
  The states the allocators reach under their contract: from \<open>initialize\<close> (the
  static dummy below the page provider's pages), by allocations that return, and by
  releases of pointers that an allocation returned and that have not been released
  since.  The second component is the set of those live pointers.
\<close>

inductive bf_reach :: "best_fit_state \<Rightarrow> addr set \<Rightarrow> bool" where
  bf_reach_init:
    "best_fit_dummy + sizeof_best_fit_metadata_t \<le> next_page (bf_sys s) \<Longrightarrow>
     bf_reach (best_fit_initialize s) {}"
| bf_reach_malloc:
    "bf_reach s L \<Longrightarrow> best_fit_malloc R s = Some (Inr (p, s')) \<Longrightarrow> bf_reach s' (insert p L)"
| bf_reach_free:
    "bf_reach s L \<Longrightarrow> p \<in> L \<Longrightarrow> best_fit_free p s = Some (Inr s') \<Longrightarrow> bf_reach s' (L - {p})"

inductive ff_reach :: "first_fit_state \<Rightarrow> addr set \<Rightarrow> bool" where
  ff_reach_init:
    "first_fit_dummy + sizeof_first_fit_metadata_t \<le> next_page (ff_sys s) \<Longrightarrow>
     ff_reach (first_fit_initialize s) {}"
| ff_reach_malloc:
    "ff_reach s L \<Longrightarrow> first_fit_malloc R s = Some (Inr (p, s')) \<Longrightarrow> ff_reach s' (insert p L)"
| ff_reach_free:
    "ff_reach s L \<Longrightarrow> p \<in> L \<Longrightarrow> first_fit_free p s = Inr s' \<Longrightarrow> ff_reach s' (L - {p})"

text \<open>
  States used as concrete inputs, each given by the calls that reach it.
  \<open>bf_example\<close> and \<open>ff_example\<close>: allocate 24, 40 and the rest of the page, then
  release the first two blocks (best-fit: the 40 before the 24; first-fit: the 24 before
  the 40, so that the 40 comes first in the list); the free collection holds the dummy
  and blocks of 24 and 40 bytes.  \<open>bf_example2\<close>: allocate 8 bytes and release them.
\<close>

definition bf_example :: best_fit_state where
  "bf_example =
     (case and_then (best_fit_malloc 24 (best_fit_initialize bf_boot)) (\<lambda>(a, s1).
           and_then (best_fit_malloc 40 s1) (\<lambda>(b, s2).
           and_then (best_fit_malloc 3936 s2) (\<lambda>(c, s3).
           and_then (best_fit_free b s3) (\<lambda>s4. best_fit_free a s4))))
      of Some (Inr s) \<Rightarrow> s | _ \<Rightarrow> bf_boot)"

definition ff_example :: first_fit_state where
  "ff_example =
     (case and_then (first_fit_malloc 24 (first_fit_initialize ff_boot)) (\<lambda>(a, s1).
           and_then (first_fit_malloc 40 s1) (\<lambda>(b, s2).
           and_then (first_fit_malloc 3984 s2) (\<lambda>(c, s3).
           and_then (Some (first_fit_free a s3)) (\<lambda>s4. Some (first_fit_free b s4)))))
      of Some (Inr s) \<Rightarrow> s | _ \<Rightarrow> ff_boot)"

definition bf_example2 :: best_fit_state where
  "bf_example2 =
     (case and_then (best_fit_malloc 8 (best_fit_initialize bf_boot)) (\<lambda>(a, s1).
           best_fit_free a s1)
      of Some (Inr s) \<Rightarrow> s | _ \<Rightarrow> bf_boot)"

section \<open>Block layout\<close>

lemma blocks_ok_cong:
  "blocks_ok H sz B lim \<Longrightarrow> (\<forall>a\<in>B. sz' a = sz a) \<Longrightarrow> blocks_ok H sz' B lim"
  by (simp add: blocks_ok_def)

lemma blocks_ok_page:
  assumes "blocks_ok H sz B lim" "lim \<noteq> 0" "sz' lim = 4096 - H" "\<forall>a\<in>B. sz' a = sz a" "H \<le> 4096"
  shows "blocks_ok H sz' (insert lim B) (lim + 4096)"
  using assms unfolding blocks_ok_def
  by (auto; force)

lemma blocks_ok_fresh_top:
  "blocks_ok H sz B lim \<Longrightarrow> 0 < H \<Longrightarrow> lim \<notin> B"
  unfolding blocks_ok_def by force

lemma blocks_ok_split_fresh:
  assumes "blocks_ok H sz B lim" "b \<in> B" "H + R < sz b" "0 < H"
  shows "b + H + R \<notin> B"
proof
  assume c: "b + H + R \<in> B"
  from assms(4) have "b + H + R \<noteq> b" by simp
  with assms(1,2) c have "(b + H + R) + H + sz (b + H + R) \<le> b \<or> b + H + sz b \<le> b + H + R"
    unfolding blocks_ok_def by blast
  with assms(3,4) show False by simp
qed

lemma blocks_ok_split:
  assumes ok: "blocks_ok H sz B lim" and b: "b \<in> B" and big: "H + R < sz b" and H: "0 < H"
    and sb: "sz' b = R" and sn: "sz' (b + H + R) = sz b - R - H"
    and same: "\<forall>a\<in>B. a \<noteq> b \<longrightarrow> sz' a = sz a"
  shows "blocks_ok H sz' (insert (b + H + R) B) lim"
proof -
  let ?n = "b + H + R"
  have fresh: "?n \<notin> B" using blocks_ok_split_fresh[OF ok b big H] .
  have bnd: "\<And>a. a \<in> B \<Longrightarrow> a \<noteq> 0 \<and> a + H + sz a \<le> lim \<and> sz a \<le> 4096 - H"
    using ok unfolding blocks_ok_def by blast
  have dis: "\<And>a c. a \<in> B \<Longrightarrow> c \<in> B \<Longrightarrow> a \<noteq> c \<Longrightarrow> a + H + sz a \<le> c \<or> c + H + sz c \<le> a"
    using ok unfolding blocks_ok_def by blast
  have sz'_le: "\<And>a. a \<in> B \<Longrightarrow> sz' a \<le> sz a"
    using same sb big by (metis add_leD2 less_imp_le_nat order_refl)
  have n_end: "?n + H + sz' ?n = b + H + sz b" using sn big by simp
  have one: "\<forall>a\<in>insert ?n B. a \<noteq> 0 \<and> a + H + sz' a \<le> lim \<and> sz' a \<le> 4096 - H"
  proof
    fix a assume "a \<in> insert ?n B"
    then consider "a = ?n" | "a \<in> B" by blast
    then show "a \<noteq> 0 \<and> a + H + sz' a \<le> lim \<and> sz' a \<le> 4096 - H"
    proof cases
      case 1
      then show ?thesis using n_end bnd[OF b] H sn by auto
    next
      case 2
      then show ?thesis using bnd[OF 2] sz'_le[OF 2] by auto
    qed
  qed
  have two: "\<forall>a\<in>insert ?n B. \<forall>c\<in>insert ?n B. a \<noteq> c \<longrightarrow> a + H + sz' a \<le> c \<or> c + H + sz' c \<le> a"
  proof (intro ballI impI)
    fix a c assume a: "a \<in> insert ?n B" and c: "c \<in> insert ?n B" and ne: "a \<noteq> c"
    have key: "x + H + sz' x \<le> ?n \<or> ?n + H + sz' ?n \<le> x" if x: "x \<in> B" for x
    proof (cases "x = b")
      case True
      then show ?thesis using sb by simp
    next
      case False
      with dis[OF x b] same x n_end show ?thesis by auto
    qed
    have old: "x + H + sz' x \<le> y \<or> y + H + sz' y \<le> x" if "x \<in> B" "y \<in> B" "x \<noteq> y" for x y
      using dis[OF that] sz'_le[OF that(1)] sz'_le[OF that(2)] by auto
    consider "a = ?n" "c \<in> B" | "c = ?n" "a \<in> B" | "a \<in> B" "c \<in> B"
      using a c ne by blast
    then show "a + H + sz' a \<le> c \<or> c + H + sz' c \<le> a"
    proof cases
      case 1
      with key[OF 1(2)] show ?thesis by blast
    next
      case 2
      with key[OF 2(2)] show ?thesis by blast
    next
      case 3
      from old[OF 3 ne] show ?thesis .
    qed
  qed
  from one two show ?thesis unfolding blocks_ok_def by blast
qed

section \<open>First-fit: the list operations and the allocator keep the invariant\<close>

lemma ff_list_at_frame:
  "\<forall>a\<in>set xs. ff_next (m' a) = ff_next (m a) \<Longrightarrow> ff_list_at m' p xs = ff_list_at m p xs"
  by (induction xs arbitrary: p) auto

lemma ff_list_at_nonzero: "ff_list_at m p xs \<Longrightarrow> 0 \<notin> set xs"
  by (induction xs arbitrary: p) auto

lemma ff_list_at_head: "ff_list_at m p xs \<Longrightarrow> p = (case xs of [] \<Rightarrow> 0 | a # _ \<Rightarrow> a)"
  by (cases xs) auto

lemma first_fit_scan_found:
  "ff_list_at m p (pre @ a # post) \<Longrightarrow> \<forall>b\<in>set pre. ff_size (m b) < R \<Longrightarrow> R \<le> ff_size (m a) \<Longrightarrow>
   first_fit_scan m R p prev = Some (a, last (prev # pre))"
proof (induction pre arbitrary: p prev)
  case Nil
  then show ?case by (subst first_fit_scan.simps) simp
next
  case (Cons b pre)
  from Cons.prems have "first_fit_scan m R (ff_next (m b)) b = Some (a, last (b # pre))"
    by (intro Cons.IH) auto
  with Cons.prems show ?case by (subst first_fit_scan.simps) simp
qed

lemma first_fit_scan_none:
  "ff_list_at m p xs \<Longrightarrow> \<forall>b\<in>set xs. ff_size (m b) < R \<Longrightarrow>
   first_fit_scan m R p prev = Some (0, last (prev # xs))"
proof (induction xs arbitrary: p prev)
  case Nil
  then show ?case by (subst first_fit_scan.simps) simp
next
  case (Cons b xs)
  from Cons.prems have "first_fit_scan m R (ff_next (m b)) b = Some (0, last (b # xs))"
    by (intro Cons.IH) auto
  with Cons.prems show ?case by (subst first_fit_scan.simps) simp
qed

text \<open>Unlinking \<open>a\<close> from the list, as \<open>first_fit_remove_from_free_list\<close> writes it.\<close>

lemma ff_unlink_inner:
  "ff_list_at m p (pre @ c # a # post) \<Longrightarrow> distinct (pre @ c # a # post) \<Longrightarrow>
   ff_list_at (m(c := (m c)\<lparr>ff_next := ff_next (m a)\<rparr>)) p (pre @ c # post)"
proof (induction pre arbitrary: p)
  case Nil
  define m' where "m' = m(c := (m c)\<lparr>ff_next := ff_next (m a)\<rparr>)"
  have n: "ff_next (m' c) = ff_next (m a)" by (simp add: m'_def)
  have "\<forall>x\<in>set post. ff_next (m' x) = ff_next (m x)"
    using Nil.prems by (auto simp: m'_def)
  then have "ff_list_at m' (ff_next (m a)) post = ff_list_at m (ff_next (m a)) post"
    by (rule ff_list_at_frame)
  with Nil.prems n show ?case unfolding m'_def[symmetric] by simp
next
  case (Cons x pre)
  define m' where "m' = m(c := (m c)\<lparr>ff_next := ff_next (m a)\<rparr>)"
  have "ff_next (m' x) = ff_next (m x)" using Cons.prems by (simp add: m'_def)
  with Cons show ?case unfolding m'_def[symmetric] by simp
qed

lemma ff_list_at_last_nonzero:
  "ff_list_at m p (pre @ rest) \<Longrightarrow> (last (0 # pre) = 0) = (pre = [])"
  using ff_list_at_nonzero[of m p "pre @ rest"]
  by (cases pre rule: rev_cases) auto

lemma ff_remove_list:
  assumes l: "ff_list_at (ff_mem s) (ff_free_head s) (pre @ a # post)"
    and d: "distinct (pre @ a # post)"
  shows "\<exists>s1. first_fit_remove_from_free_list a (last (0 # pre)) s = Inr s1 \<and>
     ff_list_at (ff_mem s1) (ff_free_head s1) (pre @ post) \<and>
     ff_next (ff_mem s1 a) = 0 \<and> ff_sys s1 = ff_sys s \<and>
     (\<forall>b. ff_size (ff_mem s1 b) = ff_size (ff_mem s b)) \<and>
     (\<forall>b. b \<notin> set (pre @ [a]) \<longrightarrow> ff_mem s1 b = ff_mem s b)"
proof (cases pre rule: rev_cases)
  case Nil
  with l have a: "a \<noteq> 0" "ff_free_head s = a" "ff_list_at (ff_mem s) (ff_next (ff_mem s a)) post"
    by auto
  have "ff_list_at ((ff_mem s)(a := (ff_mem s a)\<lparr>ff_next := 0\<rparr>)) (ff_next (ff_mem s a)) post
      = ff_list_at (ff_mem s) (ff_next (ff_mem s a)) post"
    using d Nil by (intro ff_list_at_frame) auto
  with a Nil show ?thesis
    by (simp add: first_fit_remove_from_free_list_def)
next
  case (snoc pre' c)
  from l have nz: "0 \<notin> set (pre @ a # post)" by (rule ff_list_at_nonzero)
  with snoc have c: "c \<noteq> 0" "a \<noteq> 0" "c \<noteq> a" using d by auto
  let ?m1 = "(ff_mem s)(c := (ff_mem s c)\<lparr>ff_next := ff_next (ff_mem s a)\<rparr>)"
  from l d snoc have 1: "ff_list_at ?m1 (ff_free_head s) (pre' @ c # post)"
    using ff_unlink_inner[of "ff_mem s" "ff_free_head s" pre' c a post] by simp
  have "ff_list_at (?m1(a := (?m1 a)\<lparr>ff_next := 0\<rparr>)) (ff_free_head s) (pre' @ c # post)
      = ff_list_at ?m1 (ff_free_head s) (pre' @ c # post)"
    using d snoc by (intro ff_list_at_frame) auto
  with 1 c snoc show ?thesis
    by (simp add: first_fit_remove_from_free_list_def)
qed

lemma ff_add_list:
  assumes l: "ff_list_at (ff_mem s) (ff_free_head s) xs"
    and a: "a \<notin> set xs" "a \<noteq> 0" "ff_next (ff_mem s a) = 0"
  shows "\<exists>s1. first_fit_add_to_free_list a s = Inr s1 \<and>
     ff_list_at (ff_mem s1) (ff_free_head s1) (a # xs) \<and> ff_sys s1 = ff_sys s \<and>
     (\<forall>b. ff_size (ff_mem s1 b) = ff_size (ff_mem s b)) \<and>
     (\<forall>b. b \<noteq> a \<longrightarrow> ff_mem s1 b = ff_mem s b)"
proof -
  have "ff_list_at ((ff_mem s)(a := (ff_mem s a)\<lparr>ff_next := ff_free_head s\<rparr>)) (ff_free_head s) xs
     = ff_list_at (ff_mem s) (ff_free_head s) xs"
    using a by (intro ff_list_at_frame) auto
  with l a show ?thesis
    by (simp add: first_fit_add_to_free_list_def)
qed

lemma ff_malloc_found:
  assumes inv: "ff_inv s (pre @ a # post) A"
    and small: "\<forall>b\<in>set pre. ff_size (ff_mem s b) < R"
    and fit: "R \<le> ff_size (ff_mem s a)"
  shows "\<exists>s'. first_fit_malloc R s = Some (Inr (a + sizeof_first_fit_metadata_t, s')) \<and>
     ff_sys s' = ff_sys s \<and>
     (if sizeof_first_fit_metadata_t < ff_size (ff_mem s a) - R
      then ff_inv s' ((a + sizeof_first_fit_metadata_t + R) # pre @ post) (insert a A) \<and>
           ff_size (ff_mem s' a) = R \<and>
           ff_size (ff_mem s' (a + sizeof_first_fit_metadata_t + R)) =
             ff_size (ff_mem s a) - R - sizeof_first_fit_metadata_t \<and>
           (\<forall>b. b \<noteq> a \<and> b \<noteq> a + sizeof_first_fit_metadata_t + R \<longrightarrow>
                ff_size (ff_mem s' b) = ff_size (ff_mem s b))
      else ff_inv s' (pre @ post) (insert a A) \<and>
           (\<forall>b. ff_size (ff_mem s' b) = ff_size (ff_mem s b)))"
proof -
  let ?xs = "pre @ a # post"
  from inv have l: "ff_list_at (ff_mem s) (ff_free_head s) ?xs" and d: "distinct ?xs"
    and disj: "set ?xs \<inter> A = {}" and An: "\<forall>b\<in>A. ff_next (ff_mem s b) = 0"
    and blk: "blocks_ok 16 (\<lambda>a. ff_size (ff_mem s a)) (set ?xs \<union> A) (next_page (ff_sys s))"
    and np: "next_page (ff_sys s) \<noteq> 0"
    by (simp_all add: ff_inv_def sizeof_first_fit_metadata_t_def)
  from l have a0: "a \<noteq> 0" using ff_list_at_nonzero by fastforce
  from d disj have aA: "a \<notin> A" "a \<notin> set pre" "a \<notin> set post" by auto
  have scan: "first_fit_scan (ff_mem s) R (ff_free_head s) 0 = Some (a, last (0 # pre))"
    using l small fit by (rule first_fit_scan_found)
  from ff_remove_list[OF l d] obtain s1 where
    rem: "first_fit_remove_from_free_list a (last (0 # pre)) s = Inr s1"
    and l1: "ff_list_at (ff_mem s1) (ff_free_head s1) (pre @ post)"
    and n1: "ff_next (ff_mem s1 a) = 0" and sys1: "ff_sys s1 = ff_sys s"
    and sz1: "\<And>b. ff_size (ff_mem s1 b) = ff_size (ff_mem s b)"
    and fr1: "\<And>b. b \<notin> set (pre @ [a]) \<Longrightarrow> ff_mem s1 b = ff_mem s b"
    by blast
  have An1: "\<forall>b\<in>insert a A. ff_next (ff_mem s1 b) = 0"
  proof
    fix b assume "b \<in> insert a A"
    then consider "b = a" | "b \<in> A" by blast
    then show "ff_next (ff_mem s1 b) = 0"
    proof cases
      case 1
      with n1 show ?thesis by simp
    next
      case 2
      with disj have "b \<notin> set (pre @ [a])" by auto
      from fr1[OF this] An 2 show ?thesis by simp
    qed
  qed
  show ?thesis
  proof (cases "16 < ff_size (ff_mem s a) - R")
    case False
    have "first_fit_malloc R s = Some (Inr (a + 16, s1))"
      using False a0 scan rem
      by (subst first_fit_malloc.simps) (simp add: sizeof_first_fit_metadata_t_def)
    moreover have "ff_inv s1 (pre @ post) (insert a A)"
    proof -
      have "set (pre @ post) \<union> insert a A = set ?xs \<union> A" by auto
      with blk have "blocks_ok 16 (\<lambda>a. ff_size (ff_mem s1 a)) (set (pre @ post) \<union> insert a A)
          (next_page (ff_sys s1))"
        by (simp add: sz1 sys1)
      with l1 d disj An1 np sys1 aA show ?thesis
        by (auto simp: ff_inv_def sizeof_first_fit_metadata_t_def)
    qed
    ultimately show ?thesis
      using False sys1 sz1 by (simp add: sizeof_first_fit_metadata_t_def)
  next
    case True
    define new where "new = a + 16 + R"
    define m1 where "m1 = (ff_mem s1)(a := (ff_mem s1 a)\<lparr>ff_size := R\<rparr>)"
    define m2 where "m2 = m1(new := (m1 new)\<lparr>ff_size := ff_size (ff_mem s a) - R - 16\<rparr>)"
    define m3 where "m3 = m2(new := (m2 new)\<lparr>ff_next := 0\<rparr>)"
    have big: "16 + R < ff_size (ff_mem s a)" using True by simp
    have ain: "a \<in> set ?xs \<union> A" by simp
    have fresh: "new \<notin> set ?xs \<union> A"
      unfolding new_def using blocks_ok_split_fresh[OF blk ain big] by simp
    have newa: "new \<noteq> a" "new \<noteq> 0" by (simp_all add: new_def)
    have step: "first_fit_malloc R s =
        and_then (Some (first_fit_add_to_free_list new (s1\<lparr>ff_mem := m3\<rparr>)))
          (\<lambda>s2. Some (Inr (a + 16, s2)))"
      using True a0 scan rem
      by (subst first_fit_malloc.simps)
        (simp add: sizeof_first_fit_metadata_t_def Let_def m3_def m2_def m1_def new_def add.assoc)
    have nx3: "\<And>b. b \<noteq> new \<Longrightarrow> ff_next (m3 b) = ff_next (ff_mem s1 b)"
      by (simp add: m3_def m2_def m1_def)
    have "ff_list_at m3 (ff_free_head s1) (pre @ post) =
        ff_list_at (ff_mem s1) (ff_free_head s1) (pre @ post)"
      using fresh by (intro ff_list_at_frame ballI nx3) auto
    with l1 have l3: "ff_list_at (ff_mem (s1\<lparr>ff_mem := m3\<rparr>)) (ff_free_head (s1\<lparr>ff_mem := m3\<rparr>))
        (pre @ post)" by simp
    have "new \<notin> set (pre @ post)" "ff_next (ff_mem (s1\<lparr>ff_mem := m3\<rparr>) new) = 0"
      using fresh by (auto simp: m3_def)
    from ff_add_list[OF l3 this(1) newa(2) this(2)] obtain s2 where
      add: "first_fit_add_to_free_list new (s1\<lparr>ff_mem := m3\<rparr>) = Inr s2"
      and l2: "ff_list_at (ff_mem s2) (ff_free_head s2) (new # pre @ post)"
      and sys2: "ff_sys s2 = ff_sys s1"
      and sz2: "\<And>b. ff_size (ff_mem s2 b) = ff_size (m3 b)"
      and fr2: "\<And>b. b \<noteq> new \<Longrightarrow> ff_mem s2 b = m3 b"
      by auto
    have res: "first_fit_malloc R s = Some (Inr (a + 16, s2))"
      using step add by simp
    have sza: "ff_size (ff_mem s2 a) = R"
      using newa by (simp add: sz2 m3_def m2_def m1_def)
    have szn: "ff_size (ff_mem s2 new) = ff_size (ff_mem s a) - R - 16"
      by (simp add: sz2 m3_def m2_def m1_def)
    have szo: "\<And>b. b \<noteq> a \<Longrightarrow> b \<noteq> new \<Longrightarrow> ff_size (ff_mem s2 b) = ff_size (ff_mem s b)"
      by (simp add: sz2 m3_def m2_def m1_def sz1)
    have An2: "\<forall>b\<in>insert a A. ff_next (ff_mem s2 b) = 0"
    proof
      fix b assume b: "b \<in> insert a A"
      with fresh newa have "b \<noteq> new" by auto
      with An1 b show "ff_next (ff_mem s2 b) = 0" by (auto simp: fr2 nx3)
    qed
    have blk2: "blocks_ok 16 (\<lambda>a. ff_size (ff_mem s2 a)) (insert (a + 16 + R) (set ?xs \<union> A))
        (next_page (ff_sys s))"
      using blk ain big
    proof (rule blocks_ok_split)
      show "ff_size (ff_mem s2 a) = R" by (rule sza)
      show "ff_size (ff_mem s2 (a + 16 + R)) = ff_size (ff_mem s a) - R - 16"
        using szn by (simp add: new_def)
      show "\<forall>b\<in>set ?xs \<union> A. b \<noteq> a \<longrightarrow> ff_size (ff_mem s2 b) = ff_size (ff_mem s b)"
        using szo fresh by auto
    qed simp
    have "insert (a + 16 + R) (set ?xs \<union> A) = set (new # pre @ post) \<union> insert a A"
      by (auto simp: new_def)
    with blk2 have blk2': "blocks_ok 16 (\<lambda>a. ff_size (ff_mem s2 a))
        (set (new # pre @ post) \<union> insert a A) (next_page (ff_sys s2))"
      by (simp add: sys2 sys1)
    have "ff_inv s2 (new # pre @ post) (insert a A)"
      using l2 d disj An2 np sys1 sys2 aA fresh newa blk2'
      by (auto simp: ff_inv_def sizeof_first_fit_metadata_t_def)
    with res True sza szn szo sys1 sys2 show ?thesis
      by (simp add: sizeof_first_fit_metadata_t_def new_def)
  qed
qed

lemma ff_inv_map_page:
  assumes inv: "ff_inv s xs A"
  shows "ff_inv (ff_map_page s) (next_page (ff_sys s) # xs) A"
proof -
  let ?p = "next_page (ff_sys s)"
  let ?s1 = "ff_map_page s"
  from inv have l: "ff_list_at (ff_mem s) (ff_free_head s) xs" and d: "distinct xs"
    and disj: "set xs \<inter> A = {}" and An: "\<forall>b\<in>A. ff_next (ff_mem s b) = 0"
    and blk: "blocks_ok 16 (\<lambda>a. ff_size (ff_mem s a)) (set xs \<union> A) ?p"
    and np: "?p \<noteq> 0"
    by (simp_all add: ff_inv_def sizeof_first_fit_metadata_t_def)
  have fresh: "?p \<notin> set xs \<union> A" using blocks_ok_fresh_top[OF blk] by simp
  have mem: "\<And>b. b \<noteq> ?p \<Longrightarrow> ff_mem ?s1 b = ff_mem s b"
    by (simp add: ff_map_page_def Let_def)
  have "ff_list_at (ff_mem ?s1) (ff_free_head s) xs = ff_list_at (ff_mem s) (ff_free_head s) xs"
    using fresh mem by (intro ff_list_at_frame ballI) (metis UnCI)
  with l np have l1: "ff_list_at (ff_mem ?s1) (ff_free_head ?s1) (?p # xs)"
    by (simp add: ff_map_page_def Let_def)
  have "blocks_ok 16 (\<lambda>a. ff_size (ff_mem ?s1 a)) (insert ?p (set xs \<union> A)) (?p + 4096)"
    using blk np
  proof (rule blocks_ok_page)
    show "ff_size (ff_mem ?s1 ?p) = 4096 - 16"
      by (simp add: ff_map_page_def Let_def sizeof_first_fit_metadata_t_def)
    show "\<forall>a\<in>set xs \<union> A. ff_size (ff_mem ?s1 a) = ff_size (ff_mem s a)"
      using fresh mem by (metis UnE UnI1 UnI2)
  qed simp
  moreover have "next_page (ff_sys ?s1) = ?p + 4096" by (simp add: ff_map_page_def Let_def)
  moreover have "\<forall>b\<in>A. ff_next (ff_mem ?s1 b) = 0" using An fresh mem by (metis UnCI)
  ultimately show ?thesis
    using l1 d disj fresh by (auto simp: ff_inv_def sizeof_first_fit_metadata_t_def)
qed

lemma ff_inv_sizes:
  "ff_inv s xs A \<Longrightarrow> b \<in> set xs \<Longrightarrow> ff_size (ff_mem s b) \<le> 4080"
  by (auto simp: ff_inv_def blocks_ok_def sizeof_first_fit_metadata_t_def)

lemma first_fit_malloc_grow:
  assumes inv: "ff_inv s xs A" and none: "\<forall>b\<in>set xs. ff_size (ff_mem s b) < R"
  shows "first_fit_malloc R s = first_fit_malloc R (ff_map_page s)"
proof -
  from inv have l: "ff_list_at (ff_mem s) (ff_free_head s) xs" and np: "next_page (ff_sys s) \<noteq> 0"
    by (simp_all add: ff_inv_def)
  have scan: "first_fit_scan (ff_mem s) R (ff_free_head s) 0 = Some (0, last (0 # xs))"
    using l none by (rule first_fit_scan_none)
  show ?thesis
    using scan np
    by (subst first_fit_malloc.simps)
      (simp add: mmap_from_system_def first_fit_add_to_free_list_def ff_map_page_def Let_def
        sizeof_first_fit_metadata_t_def)
qed

lemma first_fit_malloc_diverges:
  assumes "ff_inv s xs A" and "4096 - sizeof_first_fit_metadata_t < R"
  shows "first_fit_malloc R s = None"
proof (rule ccontr)
  assume "first_fit_malloc R s \<noteq> None"
  then obtain y where y: "first_fit_malloc R s = Some y" by auto
  have "\<not> (4080 < R \<and> (\<exists>xs A. ff_inv s xs A))"
  proof (rule first_fit_malloc.raw_induct[where P = "\<lambda>R s y. \<not> (4080 < R \<and> (\<exists>xs A. ff_inv s xs A))",
        OF _ y], goal_cases)
    case (1 f R s y)
    show ?case
    proof
      assume "4080 < R \<and> (\<exists>xs A. ff_inv s xs A)"
      then obtain xs A where R: "4080 < R" and inv: "ff_inv s xs A" by blast
      from inv have l: "ff_list_at (ff_mem s) (ff_free_head s) xs"
        and np: "next_page (ff_sys s) \<noteq> 0"
        by (simp_all add: ff_inv_def)
      have none: "\<forall>b\<in>set xs. ff_size (ff_mem s b) < R"
        using ff_inv_sizes[OF inv] R by fastforce
      have scan: "first_fit_scan (ff_mem s) R (ff_free_head s) 0 = Some (0, last (0 # xs))"
        using l none by (rule first_fit_scan_none)
      from 1(2) have "f R (ff_map_page s) = Some y"
        using scan np
        by (simp add: mmap_from_system_def first_fit_add_to_free_list_def ff_map_page_def Let_def
            sizeof_first_fit_metadata_t_def)
      from 1(1)[OF this] R ff_inv_map_page[OF inv] show False by blast
    qed
  qed
  with assms show False by (auto simp: sizeof_first_fit_metadata_t_def)
qed

lemma ff_free_inv:
  assumes inv: "ff_inv s xs A" and a: "a \<in> A"
  shows "\<exists>s'. first_fit_free (a + sizeof_first_fit_metadata_t) s = Inr s' \<and>
     ff_inv s' (a # xs) (A - {a}) \<and>
     (\<forall>b. ff_size (ff_mem s' b) = ff_size (ff_mem s b)) \<and>
     (\<forall>b. b \<noteq> a \<longrightarrow> ff_mem s' b = ff_mem s b) \<and> ff_sys s' = ff_sys s"
proof -
  from inv have l: "ff_list_at (ff_mem s) (ff_free_head s) xs" and d: "distinct xs"
    and disj: "set xs \<inter> A = {}" and An: "\<forall>b\<in>A. ff_next (ff_mem s b) = 0"
    and blk: "blocks_ok 16 (\<lambda>a. ff_size (ff_mem s a)) (set xs \<union> A) (next_page (ff_sys s))"
    and np: "next_page (ff_sys s) \<noteq> 0"
    by (simp_all add: ff_inv_def sizeof_first_fit_metadata_t_def)
  from a disj have ax: "a \<notin> set xs" by auto
  from a blk have a0: "a \<noteq> 0" by (auto simp: blocks_ok_def)
  from a An have an: "ff_next (ff_mem s a) = 0" by simp
  from ff_add_list[OF l ax a0 an] obtain s' where
    add: "first_fit_add_to_free_list a s = Inr s'"
    and l': "ff_list_at (ff_mem s') (ff_free_head s') (a # xs)" and sys: "ff_sys s' = ff_sys s"
    and sz: "\<forall>b. ff_size (ff_mem s' b) = ff_size (ff_mem s b)"
    and fr: "\<forall>b. b \<noteq> a \<longrightarrow> ff_mem s' b = ff_mem s b" by blast
  have res: "first_fit_free (a + sizeof_first_fit_metadata_t) s = Inr s'"
    using add by (simp add: first_fit_free_def)
  have "(\<lambda>b. ff_size (ff_mem s' b)) = (\<lambda>b. ff_size (ff_mem s b))" using sz by auto
  moreover have "set (a # xs) \<union> (A - {a}) = set xs \<union> A" using a by auto
  moreover have "\<forall>b\<in>A - {a}. ff_next (ff_mem s' b) = 0" using An fr by auto
  ultimately have "ff_inv s' (a # xs) (A - {a})"
    using l' d ax disj blk np sys
    by (auto simp: ff_inv_def sizeof_first_fit_metadata_t_def)
  with res sz fr sys show ?thesis by blast
qed

lemma ff_inv_initialize:
  assumes "first_fit_dummy + sizeof_first_fit_metadata_t \<le> next_page (ff_sys s)"
  shows "ff_inv (first_fit_initialize s) [first_fit_dummy] {}"
  using assms
  by (simp add: ff_inv_def first_fit_initialize_def first_fit_dummy_def blocks_ok_def
      sizeof_first_fit_metadata_t_def)

section \<open>Best-fit: the tree operations and the allocator keep the invariant\<close>

lemma bf_tree_at_frame:
  "\<forall>b\<in>set_tree t. bf_left (m' b) = bf_left (m b) \<and> bf_right (m' b) = bf_right (m b) \<Longrightarrow>
   bf_tree_at m' p t = bf_tree_at m p t"
  by (induction t arbitrary: p) auto

lemma bf_tree_at_nonzero: "bf_tree_at m p t \<Longrightarrow> 0 \<notin> set_tree t"
  by (induction t arbitrary: p) auto

lemma bf_tree_at_Leaf: "bf_tree_at m p t \<Longrightarrow> (p = 0) = (t = Leaf)"
  by (cases t) auto

lemma bf_tree_at_root: "bf_tree_at m p (Node l a r) \<Longrightarrow> p = a"
  by simp

lemma max_c_ge: "0 \<le> a \<Longrightarrow> 0 \<le> b \<Longrightarrow> 0 \<le> max_c a b"
  by (simp add: max_c_def)

lemma stored_height_nonneg:
  "bf_tree_at m p t \<Longrightarrow> \<forall>b\<in>set_tree t. 1 \<le> bf_height (m b) \<Longrightarrow> 0 \<le> stored_height m p"
  by (cases t) (auto simp: stored_height_def)

lemma stored_height_big:
  "bf_tree_at m p t \<Longrightarrow> 0 < stored_height m p \<Longrightarrow> \<exists>l r. t = Node l p r"
  by (cases t) (auto simp: stored_height_def)

lemma bf_balance:
  assumes t: "bf_tree_at m a (Node l a r)"
    and d: "distinct (inorder (Node l a r))"
    and h: "\<forall>b\<in>set_tree l \<union> set_tree r. 1 \<le> bf_height (m b)"
  shows "\<exists>p' m' t'. best_fit_balance_tree a m = Inr (p', m') \<and> bf_tree_at m' p' t' \<and>
     inorder t' = inorder (Node l a r) \<and> p' \<noteq> 0 \<and>
     (\<forall>b. bf_size (m' b) = bf_size (m b)) \<and>
     (\<forall>b. b \<notin> set_tree (Node l a r) \<longrightarrow> m' b = m b) \<and>
     (\<forall>b. b \<noteq> a \<longrightarrow> bf_height (m b) \<le> 1 \<longrightarrow> m' b = m b) \<and>
     (\<forall>b\<in>set_tree t'. 1 \<le> bf_height (m' b))"
proof -
  define lh where "lh = stored_height m (bf_left (m a))"
  define rh where "rh = stored_height m (bf_right (m a))"
  define m1 where "m1 = m(a := (m a)\<lparr>bf_height := 1 + max_c lh rh\<rparr>)"
  from t have a0: "a \<noteq> 0" and tl: "bf_tree_at m (bf_left (m a)) l"
    and tr: "bf_tree_at m (bf_right (m a)) r" by auto
  from d have al: "a \<notin> set_tree l" and ar: "a \<notin> set_tree r"
    and lr: "set_tree l \<inter> set_tree r = {}" and dl: "distinct (inorder l)" and dr: "distinct (inorder r)"
    by auto
  have lh0: "0 \<le> lh" unfolding lh_def using tl h by (intro stored_height_nonneg) auto
  have rh0: "0 \<le> rh" unfolding rh_def using tr h by (intro stored_height_nonneg) auto
  have ha: "1 \<le> 1 + max_c lh rh" using max_c_ge[OF lh0 rh0] by simp
  have unfold: "best_fit_balance_tree a m =
    (if lh + 1 < rh then
       (let right = bf_right (m1 a) in
        if right = 0 then Inl NullDeref
        else
          let right_left = bf_left (m1 right);
              m2 = m1(right := (m1 right)\<lparr>bf_left := a\<rparr>);
              m3 = m2(a := (m2 a)\<lparr>bf_right := right_left\<rparr>)
          in Inr (right, m3))
     else if rh + 1 < lh then
       (let left = bf_left (m1 a) in
        if left = 0 then Inl NullDeref
        else
          let left_right = bf_right (m1 left);
              m2 = m1(left := (m1 left)\<lparr>bf_right := a\<rparr>);
              m3 = m2(a := (m2 a)\<lparr>bf_left := left_right\<rparr>)
          in Inr (left, m3))
     else Inr (a, m1))"
    using a0 unfolding best_fit_balance_tree_def lh_def rh_def m1_def stored_height_def Let_def
    by simp
  have m1_other: "\<And>b. b \<noteq> a \<Longrightarrow> m1 b = m b" by (simp add: m1_def)
  have m1_a: "bf_left (m1 a) = bf_left (m a)" "bf_right (m1 a) = bf_right (m a)"
    "bf_size (m1 a) = bf_size (m a)" "bf_height (m1 a) = 1 + max_c lh rh"
    by (simp_all add: m1_def)
  consider (rotl) "lh + 1 < rh" | (rotr) "\<not> lh + 1 < rh" "rh + 1 < lh"
    | (none) "\<not> lh + 1 < rh" "\<not> rh + 1 < lh" by blast
  then show ?thesis
  proof cases
    case none
    have "bf_tree_at m1 a (Node l a r) = bf_tree_at m a (Node l a r)"
      by (intro bf_tree_at_frame) (simp add: m1_def)
    with t have "bf_tree_at m1 a (Node l a r)" by simp
    moreover have "best_fit_balance_tree a m = Inr (a, m1)" using none unfold by simp
    moreover have "\<forall>b\<in>set_tree (Node l a r). 1 \<le> bf_height (m1 b)"
    proof
      fix c assume c: "c \<in> set_tree (Node l a r)"
      show "1 \<le> bf_height (m1 c)"
      proof (cases "c = a")
        case True
        then show ?thesis using ha by (simp add: m1_a)
      next
        case False
        with c have "c \<in> set_tree l \<union> set_tree r" by auto
        with h False show ?thesis by (simp add: m1_other)
      qed
    qed
    moreover have "\<forall>b. bf_size (m1 b) = bf_size (m b)" by (simp add: m1_def)
    moreover have "\<forall>b. b \<notin> set_tree (Node l a r) \<longrightarrow> m1 b = m b" by (simp add: m1_def)
    moreover have "\<forall>b. b \<noteq> a \<longrightarrow> bf_height (m b) \<le> 1 \<longrightarrow> m1 b = m b" by (simp add: m1_def)
    ultimately show ?thesis using a0
      by (intro exI[of _ a] exI[of _ m1] exI[of _ "Node l a r"]) simp
  next
    case rotl
    with lh0 have "0 < stored_height m (bf_right (m a))" by (simp add: rh_def)
    from stored_height_big[OF tr this] obtain rl rr where r: "r = Node rl (bf_right (m a)) rr"
      by blast
    define b where "b = bf_right (m a)"
    from tr r have b0: "b \<noteq> 0" and trl: "bf_tree_at m (bf_left (m b)) rl"
      and trr: "bf_tree_at m (bf_right (m b)) rr" by (auto simp: b_def)
    from ar r have ab: "a \<noteq> b" by (auto simp: b_def)
    define m3 where "m3 = (m1(b := (m1 b)\<lparr>bf_left := a\<rparr>))(a := (m1 a)\<lparr>bf_right := bf_left (m b)\<rparr>)"
    have res: "best_fit_balance_tree a m = Inr (b, m3)"
      using rotl unfold b0 ab by (simp add: Let_def m1_a b_def[symmetric] m3_def m1_other)
    have m3_other: "\<And>c. c \<noteq> a \<Longrightarrow> c \<noteq> b \<Longrightarrow> m3 c = m c" by (simp add: m3_def m1_def)
    have m3_a: "bf_left (m3 a) = bf_left (m a)" "bf_right (m3 a) = bf_left (m b)"
      "bf_size (m3 a) = bf_size (m a)" "bf_height (m3 a) = 1 + max_c lh rh"
      by (simp_all add: m3_def m1_a)
    have m3_b: "bf_left (m3 b) = a" "bf_right (m3 b) = bf_right (m b)"
      "bf_size (m3 b) = bf_size (m b)" "bf_height (m3 b) = bf_height (m b)"
      using ab by (simp_all add: m3_def m1_other)
    have bl: "b \<notin> set_tree l" "b \<notin> set_tree rl" "b \<notin> set_tree rr"
      "a \<notin> set_tree rl" "a \<notin> set_tree rr"
      using d r by (auto simp: b_def)
    have "bf_tree_at m3 (bf_left (m a)) l = bf_tree_at m (bf_left (m a)) l"
      using al bl by (intro bf_tree_at_frame ballI) (metis m3_other)
    moreover have "bf_tree_at m3 (bf_left (m b)) rl = bf_tree_at m (bf_left (m b)) rl"
      using bl by (intro bf_tree_at_frame ballI) (metis m3_other)
    moreover have "bf_tree_at m3 (bf_right (m b)) rr = bf_tree_at m (bf_right (m b)) rr"
      using bl by (intro bf_tree_at_frame ballI) (metis m3_other)
    ultimately have tree: "bf_tree_at m3 b (Node (Node l a rl) b rr)"
      using tl trl trr a0 b0 by (simp add: m3_a m3_b)
    have ino: "inorder (Node (Node l a rl) b rr) = inorder (Node l a r)"
      by (simp add: r b_def)
    have hb: "1 \<le> bf_height (m b)" using h r by (simp add: b_def)
    have hs: "\<forall>c\<in>set_tree (Node (Node l a rl) b rr). 1 \<le> bf_height (m3 c)"
    proof
      fix c assume c: "c \<in> set_tree (Node (Node l a rl) b rr)"
      show "1 \<le> bf_height (m3 c)"
      proof (cases "c = a \<or> c = b")
        case True
        then show ?thesis using ha hb by (auto simp: m3_a m3_b)
      next
        case False
        with c have "c \<in> set_tree l \<union> set_tree r" by (auto simp: r)
        with h False show ?thesis by (simp add: m3_other)
      qed
    qed
    have sz: "\<forall>c. bf_size (m3 c) = bf_size (m c)"
      by (metis m3_a(3) m3_b(3) m3_other)
    have fr: "\<forall>c. c \<notin> set_tree (Node l a r) \<longrightarrow> m3 c = m c"
      using m3_other by (auto simp: r b_def)
    have "2 \<le> bf_height (m b)" using rotl lh0 b0 by (simp add: rh_def stored_height_def b_def)
    then have fr2: "\<forall>c. c \<noteq> a \<longrightarrow> bf_height (m c) \<le> 1 \<longrightarrow> m3 c = m c"
      using m3_other by (metis add_le_same_cancel1 not_one_le_zero one_add_one order.trans)
    from res tree ino b0 sz fr fr2 hs show ?thesis
      by (intro exI[of _ b] exI[of _ m3] exI[of _ "Node (Node l a rl) b rr"]) simp
  next
    case rotr
    with rh0 have "0 < stored_height m (bf_left (m a))" by (simp add: lh_def)
    from stored_height_big[OF tl this] obtain ll lr' where l: "l = Node ll (bf_left (m a)) lr'"
      by blast
    define b where "b = bf_left (m a)"
    from tl l have b0: "b \<noteq> 0" and tll: "bf_tree_at m (bf_left (m b)) ll"
      and tlr: "bf_tree_at m (bf_right (m b)) lr'" by (auto simp: b_def)
    from al l have ab: "a \<noteq> b" by (auto simp: b_def)
    define m3 where "m3 = (m1(b := (m1 b)\<lparr>bf_right := a\<rparr>))(a := (m1 a)\<lparr>bf_left := bf_right (m b)\<rparr>)"
    have res: "best_fit_balance_tree a m = Inr (b, m3)"
      using rotr unfold b0 ab by (simp add: Let_def m1_a b_def[symmetric] m3_def m1_other)
    have m3_other: "\<And>c. c \<noteq> a \<Longrightarrow> c \<noteq> b \<Longrightarrow> m3 c = m c" by (simp add: m3_def m1_def)
    have m3_a: "bf_right (m3 a) = bf_right (m a)" "bf_left (m3 a) = bf_right (m b)"
      "bf_size (m3 a) = bf_size (m a)" "bf_height (m3 a) = 1 + max_c lh rh"
      by (simp_all add: m3_def m1_a)
    have m3_b: "bf_right (m3 b) = a" "bf_left (m3 b) = bf_left (m b)"
      "bf_size (m3 b) = bf_size (m b)" "bf_height (m3 b) = bf_height (m b)"
      using ab by (simp_all add: m3_def m1_other)
    have bl: "b \<notin> set_tree r" "b \<notin> set_tree ll" "b \<notin> set_tree lr'"
      "a \<notin> set_tree ll" "a \<notin> set_tree lr'"
      using d l by (auto simp: b_def)
    have "bf_tree_at m3 (bf_right (m a)) r = bf_tree_at m (bf_right (m a)) r"
      using ar bl by (intro bf_tree_at_frame ballI) (metis m3_other)
    moreover have "bf_tree_at m3 (bf_left (m b)) ll = bf_tree_at m (bf_left (m b)) ll"
      using bl by (intro bf_tree_at_frame ballI) (metis m3_other)
    moreover have "bf_tree_at m3 (bf_right (m b)) lr' = bf_tree_at m (bf_right (m b)) lr'"
      using bl by (intro bf_tree_at_frame ballI) (metis m3_other)
    ultimately have tree: "bf_tree_at m3 b (Node ll b (Node lr' a r))"
      using tr tll tlr a0 b0 by (simp add: m3_a m3_b)
    have ino: "inorder (Node ll b (Node lr' a r)) = inorder (Node l a r)"
      by (simp add: l b_def)
    have hb: "1 \<le> bf_height (m b)" using h l by (simp add: b_def)
    have hs: "\<forall>c\<in>set_tree (Node ll b (Node lr' a r)). 1 \<le> bf_height (m3 c)"
    proof
      fix c assume c: "c \<in> set_tree (Node ll b (Node lr' a r))"
      show "1 \<le> bf_height (m3 c)"
      proof (cases "c = a \<or> c = b")
        case True
        then show ?thesis using ha hb by (auto simp: m3_a m3_b)
      next
        case False
        with c have "c \<in> set_tree l \<union> set_tree r" by (auto simp: l)
        with h False show ?thesis by (simp add: m3_other)
      qed
    qed
    have sz: "\<forall>c. bf_size (m3 c) = bf_size (m c)"
      by (metis m3_a(3) m3_b(3) m3_other)
    have fr: "\<forall>c. c \<notin> set_tree (Node l a r) \<longrightarrow> m3 c = m c"
      using m3_other by (auto simp: l b_def)
    have "2 \<le> bf_height (m b)" using rotr rh0 b0 by (simp add: lh_def stored_height_def b_def)
    then have fr2: "\<forall>c. c \<noteq> a \<longrightarrow> bf_height (m c) \<le> 1 \<longrightarrow> m3 c = m c"
      using m3_other by (metis add_le_same_cancel1 not_one_le_zero one_add_one order.trans)
    from res tree ino b0 sz fr fr2 hs show ?thesis
      by (intro exI[of _ b] exI[of _ m3] exI[of _ "Node ll b (Node lr' a r)"]) simp
  qed
qed

lemma bf_ordered_Leaf [simp]: "bf_ordered f Leaf"
  by (simp add: bf_ordered_def)

lemma bf_ordered_Node:
  "bf_ordered f (Node l a r) =
     (bf_ordered f l \<and> bf_ordered f r \<and> (\<forall>u\<in>set_tree l. f u \<le> f a) \<and> (\<forall>v\<in>set_tree r. f a \<le> f v))"
  unfolding bf_ordered_def
  by (auto simp: sorted_append) (meson order_trans)

lemma bf_ordered_cong:
  "\<forall>b\<in>set_tree t. f' b = f b \<Longrightarrow> bf_ordered f' t = bf_ordered f t"
proof -
  assume "\<forall>b\<in>set_tree t. f' b = f b"
  then have "map f' (inorder t) = map f (inorder t)" by simp
  then show ?thesis unfolding bf_ordered_def by (rule arg_cong)
qed

lemma bf_ordered_inorder_eq:
  "inorder t' = inorder t \<Longrightarrow> bf_ordered f t' = bf_ordered f t"
  by (simp add: bf_ordered_def)

lemma set_tree_inorder_eq: "inorder t' = inorder t \<Longrightarrow> set_tree t' = set_tree t"
  by (metis set_inorder)

lemma bf_findable_in: "bf_findable f x t \<Longrightarrow> x \<in> set_tree t"
  by (induction t) (auto split: if_splits)

lemma bf_first_inorder: "t \<noteq> Leaf \<Longrightarrow> inorder t = bf_first t # tl (inorder t)"
proof (induction t)
  case Leaf
  then show ?case by simp
next
  case (Node l a r)
  show ?case
  proof (cases "l = Leaf")
    case True
    then show ?thesis by simp
  next
    case False
    from Node.IH(1)[OF False] obtain ys where "inorder l = bf_first l # ys" by blast
    with False show ?thesis by simp
  qed
qed

lemma bf_first_in: "t \<noteq> Leaf \<Longrightarrow> bf_first t \<in> set_tree t"
  by (metis bf_first_inorder list.set_intros(1) set_inorder)

lemma bf_first_findable: "bf_ordered f t \<Longrightarrow> t \<noteq> Leaf \<Longrightarrow> bf_findable f (bf_first t) t"
proof (induction t)
  case Leaf
  then show ?case by simp
next
  case (Node l a r)
  show ?case
  proof (cases "l = Leaf")
    case True
    then show ?thesis by simp
  next
    case False
    from Node.prems have ol: "bf_ordered f l" and le: "\<forall>u\<in>set_tree l. f u \<le> f a"
      by (simp_all add: bf_ordered_Node)
    from bf_first_in[OF False] le have "\<not> f a < f (bf_first l)" by (simp add: not_less)
    with Node.IH(1)[OF ol False] False show ?thesis by simp
  qed
qed

lemma best_fit_leftmost_first:
  "bf_tree_at m p t \<Longrightarrow> t \<noteq> Leaf \<Longrightarrow> best_fit_leftmost m p = Some (Inr (bf_first t))"
proof (induction t arbitrary: p)
  case Leaf
  then show ?case by simp
next
  case (Node l a r)
  from Node.prems have p: "p = a" "a \<noteq> 0" and tl: "bf_tree_at m (bf_left (m a)) l" by auto
  show ?case
  proof (cases "l = Leaf")
    case True
    with tl have "bf_left (m a) = 0" by simp
    with p True show ?thesis by (subst best_fit_leftmost.simps) simp
  next
    case False
    have nz: "bf_left (m a) \<noteq> 0" using bf_tree_at_Leaf[OF tl] False by simp
    from Node.IH(1)[OF tl False] p nz False show ?thesis
      by (subst best_fit_leftmost.simps) simp
  qed
qed

lemma best_fit_search_best:
  "bf_tree_at m p t \<Longrightarrow>
   best_fit_search m R p best = Some (bf_best (\<lambda>a. bf_size (m a)) R t best)"
proof (induction t arbitrary: p best)
  case Leaf
  then show ?case by (subst best_fit_search.simps) simp
next
  case (Node l a r)
  from Node.prems have p: "p = a" "a \<noteq> 0" and tl: "bf_tree_at m (bf_left (m a)) l"
    and tr: "bf_tree_at m (bf_right (m a)) r" by auto
  show ?case
    using p Node.IH(1)[OF tl, of a] Node.IH(2)[OF tr, of best]
    by (subst best_fit_search.simps) simp
qed

lemma bf_best_none:
  "\<forall>b\<in>set_tree t. f b < R \<Longrightarrow> bf_best f R t best = best"
  by (induction t arbitrary: best) auto

lemma bf_best_fits:
  assumes "bf_ordered f t" and "\<exists>b\<in>set_tree t. R \<le> f b"
  shows "bf_best f R t best \<in> set_tree t \<and> R \<le> f (bf_best f R t best) \<and>
     (\<forall>b\<in>set_tree t. R \<le> f b \<longrightarrow> f (bf_best f R t best) \<le> f b) \<and>
     bf_findable f (bf_best f R t best) t"
  using assms
proof (induction t arbitrary: best)
  case Leaf
  then show ?case by simp
next
  case (Node l a r)
  from Node.prems(1) have ol: "bf_ordered f l" and or: "bf_ordered f r"
    and le: "\<forall>u\<in>set_tree l. f u \<le> f a" and ge: "\<forall>v\<in>set_tree r. f a \<le> f v"
    by (simp_all add: bf_ordered_Node)
  show ?case
  proof (cases "f a < R")
    case True
    with le have small: "\<forall>u\<in>set_tree l. f u < R" by auto
    with True Node.prems(2) have ex: "\<exists>b\<in>set_tree r. R \<le> f b" by (auto simp: not_le)
    from Node.IH(2)[OF or ex, of best] True small show ?thesis
      by (auto simp: not_le)
  next
    case False
    show ?thesis
    proof (cases "\<exists>b\<in>set_tree l. R \<le> f b")
      case True
      let ?y = "bf_best f R l a"
      from Node.IH(1)[OF ol True, of a] have y: "?y \<in> set_tree l" "R \<le> f ?y"
        "\<forall>b\<in>set_tree l. R \<le> f b \<longrightarrow> f ?y \<le> f b" "bf_findable f ?y l" by auto
      from y(1) le have ya: "f ?y \<le> f a" by simp
      with ge have "\<forall>v\<in>set_tree r. f ?y \<le> f v" by (meson order_trans)
      with y ya False show ?thesis by (auto simp: not_less)
    next
      case none: False
      then have "bf_best f R l a = a" by (intro bf_best_none) (auto simp: not_le)
      with False none ge show ?thesis by (auto simp: not_less)
    qed
  qed
qed

lemma bf_insert:
  assumes "bf_tree_at m p t" and "distinct (inorder t)"
    and "bf_ordered (\<lambda>a. bf_size (m a)) t"
    and "\<forall>b\<in>set_tree t. 1 \<le> bf_height (m b)"
    and "x \<notin> set_tree t" and "x \<noteq> 0"
    and "bf_left (m x) = 0" and "bf_right (m x) = 0" and "bf_height (m x) = 1"
  shows "\<exists>p' m' t'. best_fit_insert_recursive x p m = Some (Inr (p', m')) \<and>
     bf_tree_at m' p' t' \<and> set_tree t' = insert x (set_tree t) \<and> distinct (inorder t') \<and>
     bf_ordered (\<lambda>a. bf_size (m' a)) t' \<and> p' \<noteq> 0 \<and>
     (\<forall>b. bf_size (m' b) = bf_size (m b)) \<and>
     (\<forall>b. b \<notin> set_tree t \<longrightarrow> m' b = m b) \<and>
     (\<forall>b\<in>set_tree t'. 1 \<le> bf_height (m' b))"
  using assms
proof (induction t arbitrary: p)
  case Leaf
  then have res: "best_fit_insert_recursive x p m = Some (Inr (x, m))"
    by (subst best_fit_insert_recursive.simps) simp
  from Leaf have "bf_tree_at m x (Node Leaf x Leaf)" by simp
  with res Leaf show ?case
    by (intro exI[of _ x] exI[of _ m] exI[of _ "Node Leaf x Leaf"]) (simp add: bf_ordered_def)
next
  case (Node l a r)
  let ?f = "\<lambda>a. bf_size (m a)"
  from Node.prems(1) have p: "p = a" and a0: "a \<noteq> 0"
    and tl: "bf_tree_at m (bf_left (m a)) l" and tr: "bf_tree_at m (bf_right (m a)) r" by auto
  from Node.prems(2) have al: "a \<notin> set_tree l" and ar: "a \<notin> set_tree r"
    and lr: "set_tree l \<inter> set_tree r = {}"
    and dl: "distinct (inorder l)" and dr: "distinct (inorder r)" by auto
  from Node.prems(3) have ol: "bf_ordered ?f l" and or: "bf_ordered ?f r"
    and le: "\<forall>u\<in>set_tree l. ?f u \<le> ?f a" and ge: "\<forall>v\<in>set_tree r. ?f a \<le> ?f v"
    by (simp_all add: bf_ordered_Node)
  from Node.prems(4) have hl: "\<forall>b\<in>set_tree l. 1 \<le> bf_height (m b)"
    and hr: "\<forall>b\<in>set_tree r. 1 \<le> bf_height (m b)" by auto
  from Node.prems(5) have xl: "x \<notin> set_tree l" and xr: "x \<notin> set_tree r" and xa: "x \<noteq> a"
    by auto
  note x0 = Node.prems(6) and xleft = Node.prems(7) and xright = Node.prems(8)
    and xheight = Node.prems(9)
  show ?case
  proof (cases "bf_size (m x) < bf_size (m a)")
    case True
    from Node.IH(1)[OF tl dl ol hl xl x0 xleft xright xheight] obtain p1 m1 l' where
      r1: "best_fit_insert_recursive x (bf_left (m a)) m = Some (Inr (p1, m1))"
      and t1: "bf_tree_at m1 p1 l'" and s1: "set_tree l' = insert x (set_tree l)"
      and d1: "distinct (inorder l')" and o1: "bf_ordered (\<lambda>a. bf_size (m1 a)) l'"
      and sz1: "\<forall>b. bf_size (m1 b) = bf_size (m b)"
      and fr1: "\<forall>b. b \<notin> set_tree l \<longrightarrow> m1 b = m b"
      and h1: "\<forall>b\<in>set_tree l'. 1 \<le> bf_height (m1 b)" by blast
    define m2 where "m2 = m1(a := (m1 a)\<lparr>bf_left := p1\<rparr>)"
    have m2o: "\<And>b. b \<noteq> a \<Longrightarrow> m2 b = m1 b" by (simp add: m2_def)
    have m1a: "m1 a = m a" using fr1 al by simp
    have m2a: "bf_left (m2 a) = p1" "bf_right (m2 a) = bf_right (m a)"
      by (simp_all add: m2_def m1a)
    have sz2: "\<And>b. bf_size (m2 b) = bf_size (m b)" using sz1 by (simp add: m2_def)
    have al': "a \<notin> set_tree l'" using s1 al xa by auto
    have "bf_tree_at m2 p1 l' = bf_tree_at m1 p1 l'"
      using al' by (intro bf_tree_at_frame ballI) (metis m2o)
    with t1 have t2l: "bf_tree_at m2 p1 l'" by simp
    have "\<And>b. b \<in> set_tree r \<Longrightarrow> m2 b = m b"
      using ar lr fr1 m2o by (metis disjoint_iff)
    then have "bf_tree_at m2 (bf_right (m a)) r = bf_tree_at m (bf_right (m a)) r"
      and hr2: "\<forall>b\<in>set_tree r. 1 \<le> bf_height (m2 b)"
      using hr by (auto intro!: bf_tree_at_frame)
    with tr have t2r: "bf_tree_at m2 (bf_right (m a)) r" by simp
    have T2: "bf_tree_at m2 a (Node l' a r)" using a0 t2l t2r by (simp add: m2a)
    have D2: "distinct (inorder (Node l' a r))"
      using d1 dr al' ar s1 lr xr by auto
    have H2: "\<forall>b\<in>set_tree l' \<union> set_tree r. 1 \<le> bf_height (m2 b)"
      using h1 hr2 al' m2o by (metis UnE)
    from bf_balance[OF T2 D2 H2] obtain p' m' t' where
      b: "best_fit_balance_tree a m2 = Inr (p', m')" "bf_tree_at m' p' t'"
        "inorder t' = inorder (Node l' a r)" "p' \<noteq> 0"
        "\<forall>b. bf_size (m' b) = bf_size (m2 b)"
        "\<forall>b. b \<notin> set_tree (Node l' a r) \<longrightarrow> m' b = m2 b"
        "\<forall>b. b \<noteq> a \<longrightarrow> bf_height (m2 b) \<le> 1 \<longrightarrow> m' b = m2 b"
        "\<forall>b\<in>set_tree t'. 1 \<le> bf_height (m' b)" by blast
    have res: "best_fit_insert_recursive x p m = Some (Inr (p', m'))"
      using p a0 x0 True r1 b(1)
      by (subst best_fit_insert_recursive.simps) (simp add: m2_def)
    have st: "set_tree t' = insert x (set_tree (Node l a r))"
      using set_tree_inorder_eq[OF b(3)] s1 by auto
    have dist: "distinct (inorder t')" using b(3) D2 by simp
    have sz: "\<forall>b. bf_size (m' b) = bf_size (m b)" using b(5) sz2 by simp
    then have feq: "(\<lambda>a. bf_size (m' a)) = ?f" by auto
    have "(\<lambda>a. bf_size (m1 a)) = ?f" using sz1 by auto
    with o1 have o1': "bf_ordered ?f l'" by simp
    have "bf_ordered ?f (Node l' a r)"
      using o1' or le ge True s1 by (auto simp: bf_ordered_Node)
    then have ord: "bf_ordered (\<lambda>a. bf_size (m' a)) t'"
      unfolding feq using bf_ordered_inorder_eq[OF b(3)] by simp
    have fr: "\<forall>b. b \<notin> set_tree (Node l a r) \<longrightarrow> m' b = m b"
    proof (intro allI impI)
      fix b assume b_out: "b \<notin> set_tree (Node l a r)"
      then have ba: "b \<noteq> a" and bl: "b \<notin> set_tree l" by auto
      have m2b: "m2 b = m b" using ba bl fr1 m2o by simp
      show "m' b = m b"
      proof (cases "b = x")
        case True
        then have "bf_height (m2 b) \<le> 1" using m2b xheight by simp
        with b(7) ba m2b show ?thesis by simp
      next
        case False
        with b_out s1 have "b \<notin> set_tree (Node l' a r)" by auto
        with b(6) m2b show ?thesis by simp
      qed
    qed
    from res b(2) st dist ord b(4) sz fr b(8) show ?thesis
      by (intro exI[of _ p'] exI[of _ m'] exI[of _ t']) simp
  next
    case False
    from Node.IH(2)[OF tr dr or hr xr x0 xleft xright xheight] obtain p1 m1 r' where
      r1: "best_fit_insert_recursive x (bf_right (m a)) m = Some (Inr (p1, m1))"
      and t1: "bf_tree_at m1 p1 r'" and s1: "set_tree r' = insert x (set_tree r)"
      and d1: "distinct (inorder r')" and o1: "bf_ordered (\<lambda>a. bf_size (m1 a)) r'"
      and sz1: "\<forall>b. bf_size (m1 b) = bf_size (m b)"
      and fr1: "\<forall>b. b \<notin> set_tree r \<longrightarrow> m1 b = m b"
      and h1: "\<forall>b\<in>set_tree r'. 1 \<le> bf_height (m1 b)" by blast
    define m2 where "m2 = m1(a := (m1 a)\<lparr>bf_right := p1\<rparr>)"
    have m2o: "\<And>b. b \<noteq> a \<Longrightarrow> m2 b = m1 b" by (simp add: m2_def)
    have m1a: "m1 a = m a" using fr1 ar by simp
    have m2a: "bf_right (m2 a) = p1" "bf_left (m2 a) = bf_left (m a)"
      by (simp_all add: m2_def m1a)
    have sz2: "\<And>b. bf_size (m2 b) = bf_size (m b)" using sz1 by (simp add: m2_def)
    have ar': "a \<notin> set_tree r'" using s1 ar xa by auto
    have "bf_tree_at m2 p1 r' = bf_tree_at m1 p1 r'"
      using ar' by (intro bf_tree_at_frame ballI) (metis m2o)
    with t1 have t2r: "bf_tree_at m2 p1 r'" by simp
    have "\<And>b. b \<in> set_tree l \<Longrightarrow> m2 b = m b"
      using al lr fr1 m2o by (metis disjoint_iff)
    then have "bf_tree_at m2 (bf_left (m a)) l = bf_tree_at m (bf_left (m a)) l"
      and hl2: "\<forall>b\<in>set_tree l. 1 \<le> bf_height (m2 b)"
      using hl by (auto intro!: bf_tree_at_frame)
    with tl have t2l: "bf_tree_at m2 (bf_left (m a)) l" by simp
    have T2: "bf_tree_at m2 a (Node l a r')" using a0 t2l t2r by (simp add: m2a)
    have D2: "distinct (inorder (Node l a r'))"
      using d1 dl ar' al s1 lr xl by auto
    have H2: "\<forall>b\<in>set_tree l \<union> set_tree r'. 1 \<le> bf_height (m2 b)"
      using h1 hl2 ar' m2o by (metis UnE)
    from bf_balance[OF T2 D2 H2] obtain p' m' t' where
      b: "best_fit_balance_tree a m2 = Inr (p', m')" "bf_tree_at m' p' t'"
        "inorder t' = inorder (Node l a r')" "p' \<noteq> 0"
        "\<forall>b. bf_size (m' b) = bf_size (m2 b)"
        "\<forall>b. b \<notin> set_tree (Node l a r') \<longrightarrow> m' b = m2 b"
        "\<forall>b. b \<noteq> a \<longrightarrow> bf_height (m2 b) \<le> 1 \<longrightarrow> m' b = m2 b"
        "\<forall>b\<in>set_tree t'. 1 \<le> bf_height (m' b)" by blast
    have res: "best_fit_insert_recursive x p m = Some (Inr (p', m'))"
      using p a0 x0 False r1 b(1)
      by (subst best_fit_insert_recursive.simps) (simp add: m2_def)
    have st: "set_tree t' = insert x (set_tree (Node l a r))"
      using set_tree_inorder_eq[OF b(3)] s1 by auto
    have dist: "distinct (inorder t')" using b(3) D2 by simp
    have sz: "\<forall>b. bf_size (m' b) = bf_size (m b)" using b(5) sz2 by simp
    then have feq: "(\<lambda>a. bf_size (m' a)) = ?f" by auto
    have "(\<lambda>a. bf_size (m1 a)) = ?f" using sz1 by auto
    with o1 have o1': "bf_ordered ?f r'" by simp
    have "bf_ordered ?f (Node l a r')"
      using o1' ol le ge False s1 by (auto simp: bf_ordered_Node)
    then have ord: "bf_ordered (\<lambda>a. bf_size (m' a)) t'"
      unfolding feq using bf_ordered_inorder_eq[OF b(3)] by simp
    have fr: "\<forall>b. b \<notin> set_tree (Node l a r) \<longrightarrow> m' b = m b"
    proof (intro allI impI)
      fix b assume b_out: "b \<notin> set_tree (Node l a r)"
      then have ba: "b \<noteq> a" and br: "b \<notin> set_tree r" by auto
      have m2b: "m2 b = m b" using ba br fr1 m2o by simp
      show "m' b = m b"
      proof (cases "b = x")
        case True
        then have "bf_height (m2 b) \<le> 1" using m2b xheight by simp
        with b(7) ba m2b show ?thesis by simp
      next
        case False
        with b_out s1 have "b \<notin> set_tree (Node l a r')" by auto
        with b(6) m2b show ?thesis by simp
      qed
    qed
    from res b(2) st dist ord b(4) sz fr b(8) show ?thesis
      by (intro exI[of _ p'] exI[of _ m'] exI[of _ t']) simp
  qed
qed

lemma bf_remove:
  assumes "bf_tree_at m p t" and "distinct (inorder t)"
    and "bf_ordered (\<lambda>a. bf_size (m a)) t"
    and "\<forall>b\<in>set_tree t. 1 \<le> bf_height (m b)"
    and "bf_findable (\<lambda>a. bf_size (m a)) x t"
  shows "\<exists>p' m' t'. best_fit_remove_recursive x p m = Some (Inr (p', m')) \<and>
     bf_tree_at m' p' t' \<and> inorder t' = remove1 x (inorder t) \<and>
     (\<forall>b. bf_size (m' b) = bf_size (m b)) \<and>
     (\<forall>b. b \<notin> set_tree t \<longrightarrow> m' b = m b) \<and> m' x = m x \<and>
     (\<forall>b\<in>set_tree t'. 1 \<le> bf_height (m' b))"
  using assms
proof (induction t arbitrary: p x)
  case Leaf
  then show ?case by simp
next
  case (Node l a r)
  let ?f = "\<lambda>a. bf_size (m a)"
  from Node.prems(1) have p: "p = a" and a0: "a \<noteq> 0"
    and tl: "bf_tree_at m (bf_left (m a)) l" and tr: "bf_tree_at m (bf_right (m a)) r" by auto
  from Node.prems(2) have al: "a \<notin> set_tree l" and ar: "a \<notin> set_tree r"
    and lr: "set_tree l \<inter> set_tree r = {}"
    and dl: "distinct (inorder l)" and dr: "distinct (inorder r)" by auto
  from Node.prems(3) have ol: "bf_ordered ?f l" and or: "bf_ordered ?f r"
    and le: "\<forall>u\<in>set_tree l. ?f u \<le> ?f a" and ge: "\<forall>v\<in>set_tree r. ?f a \<le> ?f v"
    by (simp_all add: bf_ordered_Node)
  from Node.prems(4) have hl: "\<forall>b\<in>set_tree l. 1 \<le> bf_height (m b)"
    and hr: "\<forall>b\<in>set_tree r. 1 \<le> bf_height (m b)" and ha: "1 \<le> bf_height (m a)" by auto
  have x0: "x \<noteq> 0"
    using bf_findable_in[OF Node.prems(5)] bf_tree_at_nonzero[OF Node.prems(1)] by metis
  consider (here) "x = a" | (right) "x \<noteq> a" "?f a < ?f x" | (left) "x \<noteq> a" "\<not> ?f a < ?f x"
    by blast
  then show ?case
  proof cases
    case here
    have ino: "remove1 x (inorder (Node l a r)) = inorder l @ inorder r"
      using here al by (simp add: remove1_append)
    consider (noleft) "bf_left (m a) = 0" | (noright) "bf_left (m a) \<noteq> 0" "bf_right (m a) = 0"
      | (both) "bf_left (m a) \<noteq> 0" "bf_right (m a) \<noteq> 0" by blast
    then show ?thesis
    proof cases
      case noleft
      have l: "l = Leaf" using bf_tree_at_Leaf[OF tl] noleft by simp
      have res: "best_fit_remove_recursive x p m = Some (Inr (bf_right (m a), m))"
        using p a0 here noleft by (subst best_fit_remove_recursive.simps) simp
      from res tr ino l hr show ?thesis
        by (intro exI[of _ "bf_right (m a)"] exI[of _ m] exI[of _ r]) simp
    next
      case noright
      have r: "r = Leaf" using bf_tree_at_Leaf[OF tr] noright by simp
      have res: "best_fit_remove_recursive x p m = Some (Inr (bf_left (m a), m))"
        using p a0 here noright by (subst best_fit_remove_recursive.simps) simp
      from res tl ino r hl show ?thesis
        by (intro exI[of _ "bf_left (m a)"] exI[of _ m] exI[of _ l]) simp
    next
      case both
      have rne: "r \<noteq> Leaf" using bf_tree_at_Leaf[OF tr] both by simp
      define root where "root = bf_first r"
      have lm: "best_fit_leftmost m (bf_right (m a)) = Some (Inr root)"
        unfolding root_def using tr rne by (rule best_fit_leftmost_first)
      have rootin: "root \<in> set_tree r" unfolding root_def using rne by (rule bf_first_in)
      have inor: "inorder r = root # tl (inorder r)"
        unfolding root_def using rne by (rule bf_first_inorder)
      have fnd: "bf_findable ?f root r"
        unfolding root_def using or rne by (rule bf_first_findable)
      from rootin ar al lr have roota: "root \<noteq> a" and rootl: "root \<notin> set_tree l" by auto
      from rootin tr have root0: "root \<noteq> 0" using bf_tree_at_nonzero by metis
      from Node.IH(2)[OF tr dr or hr fnd] obtain p1 m1 r' where
        r1: "best_fit_remove_recursive root (bf_right (m a)) m = Some (Inr (p1, m1))"
        and t1: "bf_tree_at m1 p1 r'" and i1: "inorder r' = remove1 root (inorder r)"
        and sz1: "\<forall>b. bf_size (m1 b) = bf_size (m b)"
        and fr1: "\<forall>b. b \<notin> set_tree r \<longrightarrow> m1 b = m b" and x1: "m1 root = m root"
        and h1: "\<forall>b\<in>set_tree r'. 1 \<le> bf_height (m1 b)" by blast
      have i1': "inorder r' = tl (inorder r)" using i1 inor by (metis remove1.simps(2))
      have sr': "set_tree r' = set_tree r - {root}"
        using i1 dr by (metis set_inorder set_remove1_eq)
      define m2 where "m2 = m1(root := (m1 root)\<lparr>bf_right := p1\<rparr>)"
      define m3 where "m3 = m2(root := (m2 root)\<lparr>bf_left := bf_left (m2 a)\<rparr>)"
      have m1a: "m1 a = m a" using fr1 ar by simp
      have m3o: "\<And>b. b \<noteq> root \<Longrightarrow> m3 b = m1 b" by (simp add: m3_def m2_def)
      have m3r: "bf_left (m3 root) = bf_left (m a)" "bf_right (m3 root) = p1"
        "bf_height (m3 root) = bf_height (m root)" "bf_size (m3 root) = bf_size (m root)"
        using roota by (simp_all add: m3_def m2_def m1a x1)
      have res: "best_fit_remove_recursive x p m = Some (Inr (root, m3))"
        using p a0 here both lm r1
        by (subst best_fit_remove_recursive.simps) (simp add: Let_def m3_def m2_def)
      have "\<And>b. b \<in> set_tree l \<Longrightarrow> m3 b = m b"
        using rootl lr fr1 m3o by (metis disjoint_iff)
      then have "bf_tree_at m3 (bf_left (m a)) l = bf_tree_at m (bf_left (m a)) l"
        and hl3: "\<forall>b\<in>set_tree l. 1 \<le> bf_height (m3 b)"
        using hl by (auto intro!: bf_tree_at_frame)
      with tl have t3l: "bf_tree_at m3 (bf_left (m a)) l" by simp
      have "bf_tree_at m3 p1 r' = bf_tree_at m1 p1 r'"
        using sr' by (intro bf_tree_at_frame ballI) (metis Diff_iff insertI1 m3o)
      with t1 have t3r: "bf_tree_at m3 p1 r'" by simp
      have T3: "bf_tree_at m3 root (Node l root r')" using root0 t3l t3r by (simp add: m3r)
      have I3: "inorder (Node l root r') = remove1 x (inorder (Node l a r))"
        using ino i1' inor by simp
      have hroot: "1 \<le> bf_height (m3 root)" using hr rootin by (simp add: m3r)
      have hr3: "\<forall>b\<in>set_tree r'. 1 \<le> bf_height (m3 b)"
        using h1 sr' m3o by (metis Diff_iff insertI1)
      have H3: "\<forall>b\<in>set_tree (Node l root r'). 1 \<le> bf_height (m3 b)"
        using hl3 hr3 hroot by auto
      have sz3: "\<forall>b. bf_size (m3 b) = bf_size (m b)"
        using sz1 m3o m3r(4) by metis
      have fr3: "\<forall>b. b \<notin> set_tree (Node l a r) \<longrightarrow> m3 b = m b"
      proof (intro allI impI)
        fix b assume "b \<notin> set_tree (Node l a r)"
        then have "b \<notin> set_tree r" by simp
        with rootin have "b \<noteq> root" by blast
        with fr1 m3o \<open>b \<notin> set_tree r\<close> show "m3 b = m b" by simp
      qed
      have x3: "m3 x = m x" using here roota m3o m1a by simp
      from res T3 I3 sz3 fr3 x3 H3 show ?thesis
        by (intro exI[of _ root] exI[of _ m3] exI[of _ "Node l root r'"]) simp
    qed
  next
    case right
    with Node.prems(5) have fnd: "bf_findable ?f x r" by simp
    from bf_findable_in[OF fnd] have xr: "x \<in> set_tree r" .
    with lr have xl: "x \<notin> set_tree l" by auto
    from Node.IH(2)[OF tr dr or hr fnd] obtain p1 m1 r' where
      r1: "best_fit_remove_recursive x (bf_right (m a)) m = Some (Inr (p1, m1))"
      and t1: "bf_tree_at m1 p1 r'" and i1: "inorder r' = remove1 x (inorder r)"
      and sz1: "\<forall>b. bf_size (m1 b) = bf_size (m b)"
      and fr1: "\<forall>b. b \<notin> set_tree r \<longrightarrow> m1 b = m b" and x1: "m1 x = m x"
      and h1: "\<forall>b\<in>set_tree r'. 1 \<le> bf_height (m1 b)" by blast
    have sr': "set_tree r' = set_tree r - {x}"
      using i1 dr by (metis set_inorder set_remove1_eq)
    define m2 where "m2 = m1(a := (m1 a)\<lparr>bf_right := p1\<rparr>)"
    have m2o: "\<And>b. b \<noteq> a \<Longrightarrow> m2 b = m1 b" by (simp add: m2_def)
    have m1a: "m1 a = m a" using fr1 ar by simp
    have m2a: "bf_right (m2 a) = p1" "bf_left (m2 a) = bf_left (m a)"
      by (simp_all add: m2_def m1a)
    have sz2: "\<And>b. bf_size (m2 b) = bf_size (m b)" using sz1 by (simp add: m2_def)
    have ar': "a \<notin> set_tree r'" using sr' ar by auto
    have "bf_tree_at m2 p1 r' = bf_tree_at m1 p1 r'"
      using ar' by (intro bf_tree_at_frame ballI) (metis m2o)
    with t1 have t2r: "bf_tree_at m2 p1 r'" by simp
    have "\<And>b. b \<in> set_tree l \<Longrightarrow> m2 b = m b"
      using al lr fr1 m2o by (metis disjoint_iff)
    then have "bf_tree_at m2 (bf_left (m a)) l = bf_tree_at m (bf_left (m a)) l"
      and hl2: "\<forall>b\<in>set_tree l. 1 \<le> bf_height (m2 b)"
      using hl by (auto intro!: bf_tree_at_frame)
    with tl have t2l: "bf_tree_at m2 (bf_left (m a)) l" by simp
    have T2: "bf_tree_at m2 a (Node l a r')" using a0 t2l t2r by (simp add: m2a)
    have dr': "distinct (inorder r')" using i1 dr by simp
    have D2: "distinct (inorder (Node l a r'))"
      using dr' dl ar' al sr' lr by auto
    have H2: "\<forall>b\<in>set_tree l \<union> set_tree r'. 1 \<le> bf_height (m2 b)"
      using h1 hl2 ar' m2o by (metis UnE)
    from bf_balance[OF T2 D2 H2] obtain p' m' t' where
      b: "best_fit_balance_tree a m2 = Inr (p', m')" "bf_tree_at m' p' t'"
        "inorder t' = inorder (Node l a r')" "p' \<noteq> 0"
        "\<forall>b. bf_size (m' b) = bf_size (m2 b)"
        "\<forall>b. b \<notin> set_tree (Node l a r') \<longrightarrow> m' b = m2 b"
        "\<forall>b. b \<noteq> a \<longrightarrow> bf_height (m2 b) \<le> 1 \<longrightarrow> m' b = m2 b"
        "\<forall>b\<in>set_tree t'. 1 \<le> bf_height (m' b)" by blast
    have res: "best_fit_remove_recursive x p m = Some (Inr (p', m'))"
      using p a0 x0 right r1 b(1)
      by (subst best_fit_remove_recursive.simps) (simp add: m2_def)
    have I: "inorder t' = remove1 x (inorder (Node l a r))"
      using b(3) i1 xl right(1) by (simp add: remove1_append)
    have sz: "\<forall>b. bf_size (m' b) = bf_size (m b)" using b(5) sz2 by simp
    have fr: "\<forall>b. b \<notin> set_tree (Node l a r) \<longrightarrow> m' b = m b"
    proof (intro allI impI)
      fix b assume b_out: "b \<notin> set_tree (Node l a r)"
      then have "b \<notin> set_tree (Node l a r')" "b \<noteq> a" "b \<notin> set_tree r" using sr' by auto
      with b(6) fr1 m2o show "m' b = m b" by simp
    qed
    have "x \<notin> set_tree (Node l a r')" using xl right(1) sr' by auto
    with b(6) m2o right(1) x1 have xm: "m' x = m x" by simp
    from res b(2) I sz fr xm b(8) show ?thesis
      by (intro exI[of _ p'] exI[of _ m'] exI[of _ t']) simp
  next
    case left
    with Node.prems(5) have fnd: "bf_findable ?f x l" by simp
    from bf_findable_in[OF fnd] have xl: "x \<in> set_tree l" .
    with lr have xr: "x \<notin> set_tree r" by auto
    from Node.IH(1)[OF tl dl ol hl fnd] obtain p1 m1 l' where
      r1: "best_fit_remove_recursive x (bf_left (m a)) m = Some (Inr (p1, m1))"
      and t1: "bf_tree_at m1 p1 l'" and i1: "inorder l' = remove1 x (inorder l)"
      and sz1: "\<forall>b. bf_size (m1 b) = bf_size (m b)"
      and fr1: "\<forall>b. b \<notin> set_tree l \<longrightarrow> m1 b = m b" and x1: "m1 x = m x"
      and h1: "\<forall>b\<in>set_tree l'. 1 \<le> bf_height (m1 b)" by blast
    have sl': "set_tree l' = set_tree l - {x}"
      using i1 dl by (metis set_inorder set_remove1_eq)
    define m2 where "m2 = m1(a := (m1 a)\<lparr>bf_left := p1\<rparr>)"
    have m2o: "\<And>b. b \<noteq> a \<Longrightarrow> m2 b = m1 b" by (simp add: m2_def)
    have m1a: "m1 a = m a" using fr1 al by simp
    have m2a: "bf_left (m2 a) = p1" "bf_right (m2 a) = bf_right (m a)"
      by (simp_all add: m2_def m1a)
    have sz2: "\<And>b. bf_size (m2 b) = bf_size (m b)" using sz1 by (simp add: m2_def)
    have al': "a \<notin> set_tree l'" using sl' al by auto
    have "bf_tree_at m2 p1 l' = bf_tree_at m1 p1 l'"
      using al' by (intro bf_tree_at_frame ballI) (metis m2o)
    with t1 have t2l: "bf_tree_at m2 p1 l'" by simp
    have "\<And>b. b \<in> set_tree r \<Longrightarrow> m2 b = m b"
      using ar lr fr1 m2o by (metis disjoint_iff)
    then have "bf_tree_at m2 (bf_right (m a)) r = bf_tree_at m (bf_right (m a)) r"
      and hr2: "\<forall>b\<in>set_tree r. 1 \<le> bf_height (m2 b)"
      using hr by (auto intro!: bf_tree_at_frame)
    with tr have t2r: "bf_tree_at m2 (bf_right (m a)) r" by simp
    have T2: "bf_tree_at m2 a (Node l' a r)" using a0 t2l t2r by (simp add: m2a)
    have dl': "distinct (inorder l')" using i1 dl by simp
    have D2: "distinct (inorder (Node l' a r))"
      using dl' dr al' ar sl' lr by auto
    have H2: "\<forall>b\<in>set_tree l' \<union> set_tree r. 1 \<le> bf_height (m2 b)"
      using h1 hr2 al' m2o by (metis UnE)
    from bf_balance[OF T2 D2 H2] obtain p' m' t' where
      b: "best_fit_balance_tree a m2 = Inr (p', m')" "bf_tree_at m' p' t'"
        "inorder t' = inorder (Node l' a r)" "p' \<noteq> 0"
        "\<forall>b. bf_size (m' b) = bf_size (m2 b)"
        "\<forall>b. b \<notin> set_tree (Node l' a r) \<longrightarrow> m' b = m2 b"
        "\<forall>b. b \<noteq> a \<longrightarrow> bf_height (m2 b) \<le> 1 \<longrightarrow> m' b = m2 b"
        "\<forall>b\<in>set_tree t'. 1 \<le> bf_height (m' b)" by blast
    have res: "best_fit_remove_recursive x p m = Some (Inr (p', m'))"
      using p a0 x0 left r1 b(1)
      by (subst best_fit_remove_recursive.simps) (simp add: m2_def)
    have I: "inorder t' = remove1 x (inorder (Node l a r))"
      using b(3) i1 xl by (simp add: remove1_append)
    have sz: "\<forall>b. bf_size (m' b) = bf_size (m b)" using b(5) sz2 by simp
    have fr: "\<forall>b. b \<notin> set_tree (Node l a r) \<longrightarrow> m' b = m b"
    proof (intro allI impI)
      fix b assume b_out: "b \<notin> set_tree (Node l a r)"
      then have "b \<notin> set_tree (Node l' a r)" "b \<noteq> a" "b \<notin> set_tree l" using sl' by auto
      with b(6) fr1 m2o show "m' b = m b" by simp
    qed
    have "x \<notin> set_tree (Node l' a r)" using xr left(1) sl' by auto
    with b(6) m2o left(1) x1 have xm: "m' x = m x" by simp
    from res b(2) I sz fr xm b(8) show ?thesis
      by (intro exI[of _ p'] exI[of _ m'] exI[of _ t']) simp
  qed
qed

lemma new_metadata_at_same:
  "bf_size (new_metadata_at a sz m a) = sz" "bf_left (new_metadata_at a sz m a) = 0"
  "bf_right (new_metadata_at a sz m a) = 0" "bf_height (new_metadata_at a sz m a) = 1"
  by (simp_all add: new_metadata_at_def Let_def)

lemma new_metadata_at_other: "b \<noteq> a \<Longrightarrow> new_metadata_at a sz m b = m b"
  by (simp add: new_metadata_at_def Let_def)

lemma bf_malloc_found:
  assumes inv: "bf_inv s t A" and ex: "\<exists>b\<in>set_tree t. R \<le> bf_size (bf_mem s b)"
  defines "a \<equiv> bf_best (\<lambda>a. bf_size (bf_mem s a)) R t 0"
  shows "\<exists>s' t'. best_fit_malloc R s = Some (Inr (a + sizeof_best_fit_metadata_t, s')) \<and>
     bf_sys s' = bf_sys s \<and> bf_inv s' t' (insert a A) \<and>
     (if sizeof_best_fit_metadata_t < bf_size (bf_mem s a) - R
      then set_tree t' = insert (a + sizeof_best_fit_metadata_t + R) (set_tree t - {a}) \<and>
           bf_size (bf_mem s' a) = R \<and>
           bf_size (bf_mem s' (a + sizeof_best_fit_metadata_t + R)) =
             bf_size (bf_mem s a) - R - sizeof_best_fit_metadata_t \<and>
           (\<forall>b. b \<noteq> a \<and> b \<noteq> a + sizeof_best_fit_metadata_t + R \<longrightarrow>
                bf_size (bf_mem s' b) = bf_size (bf_mem s b))
      else set_tree t' = set_tree t - {a} \<and>
           (\<forall>b. bf_size (bf_mem s' b) = bf_size (bf_mem s b)))"
proof -
  let ?f = "\<lambda>a. bf_size (bf_mem s a)"
  let ?m = "bf_mem s"
  from inv have tr: "bf_tree_at ?m (bf_free_head s) t" and d: "distinct (inorder t)"
    and o: "bf_ordered ?f t" and h: "\<forall>b\<in>set_tree t. 1 \<le> bf_height (?m b)"
    and disj: "set_tree t \<inter> A = {}"
    and Ap: "\<forall>b\<in>A. bf_left (?m b) = 0 \<and> bf_right (?m b) = 0 \<and> bf_height (?m b) = 1"
    and blk: "blocks_ok 32 ?f (set_tree t \<union> A) (next_page (bf_sys s))"
    and np: "next_page (bf_sys s) \<noteq> 0"
    by (simp_all add: bf_inv_def sizeof_best_fit_metadata_t_def)
  from bf_best_fits[OF o ex, of 0] have ain: "a \<in> set_tree t" and fit: "R \<le> ?f a"
    and fnd: "bf_findable ?f a t" by (simp_all add: a_def)
  have search: "best_fit_search ?m R (bf_free_head s) 0 = Some a"
    unfolding a_def using tr by (rule best_fit_search_best)
  from ain tr have a0: "a \<noteq> 0" using bf_tree_at_nonzero by metis
  from ain disj have aA: "a \<notin> A" by auto
  from bf_remove[OF tr d o h fnd] obtain p1 m1 t1 where
    rm: "best_fit_remove_recursive a (bf_free_head s) ?m = Some (Inr (p1, m1))"
    and t1: "bf_tree_at m1 p1 t1" and i1: "inorder t1 = remove1 a (inorder t)"
    and sz1: "\<forall>b. bf_size (m1 b) = bf_size (?m b)"
    and fr1: "\<forall>b. b \<notin> set_tree t \<longrightarrow> m1 b = ?m b" and x1: "m1 a = ?m a"
    and h1: "\<forall>b\<in>set_tree t1. 1 \<le> bf_height (m1 b)" by blast
  have st1: "set_tree t1 = set_tree t - {a}"
    using i1 d by (metis set_inorder set_remove1_eq)
  have d1: "distinct (inorder t1)" using i1 d by simp
  have o1: "bf_ordered ?f t1"
    using o unfolding bf_ordered_def i1 by (rule sorted_map_remove1)
  define m2 where "m2 = m1(a := (m1 a)\<lparr>bf_left := 0\<rparr>)"
  define m3 where "m3 = m2(a := (m2 a)\<lparr>bf_right := 0\<rparr>)"
  define m4 where "m4 = m3(a := (m3 a)\<lparr>bf_height := 1\<rparr>)"
  have m4o: "\<And>b. b \<noteq> a \<Longrightarrow> m4 b = m1 b" by (simp add: m4_def m3_def m2_def)
  have m4a: "bf_left (m4 a) = 0" "bf_right (m4 a) = 0" "bf_height (m4 a) = 1"
    "bf_size (m4 a) = ?f a"
    by (simp_all add: m4_def m3_def m2_def x1)
  have sz4: "\<And>b. bf_size (m4 b) = ?f b" using sz1 by (simp add: m4_def m3_def m2_def)
  have m4t: "\<And>b. b \<in> set_tree t1 \<Longrightarrow> m4 b = m1 b" using st1 m4o by auto
  have "bf_tree_at m4 p1 t1 = bf_tree_at m1 p1 t1"
    by (intro bf_tree_at_frame ballI) (simp add: m4t)
  with t1 have t4: "bf_tree_at m4 p1 t1" by simp
  have h4: "\<forall>b\<in>set_tree t1. 1 \<le> bf_height (m4 b)" using h1 by (simp add: m4t)
  have A4: "\<forall>b\<in>insert a A. bf_left (m4 b) = 0 \<and> bf_right (m4 b) = 0 \<and> bf_height (m4 b) = 1"
  proof
    fix b assume "b \<in> insert a A"
    then consider "b = a" | "b \<in> A" "b \<noteq> a" using aA by blast
    then show "bf_left (m4 b) = 0 \<and> bf_right (m4 b) = 0 \<and> bf_height (m4 b) = 1"
    proof cases
      case 1
      then show ?thesis by (simp add: m4a)
    next
      case 2
      with disj have "b \<notin> set_tree t" by auto
      with fr1 2 Ap m4o show ?thesis by simp
    qed
  qed
  have disj1: "set_tree t1 \<inter> insert a A = {}" using st1 disj by auto
  have ain': "a \<in> set_tree t \<union> A" using ain by simp
  show ?thesis
  proof (cases "32 < ?f a - R")
    case False
    define s' where "s' = s\<lparr>bf_free_head := p1, bf_mem := m1\<rparr>\<lparr>bf_mem := m4\<rparr>"
    have res: "best_fit_malloc R s = Some (Inr (a + 32, s'))"
      using search a0 rm False
      by (subst best_fit_malloc.simps)
        (simp add: best_fit_remove_from_tree_def sizeof_best_fit_metadata_t_def Let_def
          s'_def m4_def m3_def m2_def)
    have [simp]: "bf_mem s' = m4" "bf_free_head s' = p1" "bf_sys s' = bf_sys s"
      by (simp_all add: s'_def)
    have "(\<lambda>b. bf_size (m4 b)) = ?f" using sz4 by auto
    moreover have "set_tree t1 \<union> insert a A = set_tree t \<union> A" using st1 ain by auto
    ultimately have "bf_inv s' t1 (insert a A)"
      using t4 d1 o1 h4 disj1 A4 blk np
      by (simp add: bf_inv_def sizeof_best_fit_metadata_t_def)
    with res False st1 sz4 show ?thesis
      by (intro exI[of _ s'] exI[of _ t1]) (simp add: sizeof_best_fit_metadata_t_def)
  next
    case True
    define new where "new = a + 32 + R"
    define m5 where "m5 = m4(a := (m4 a)\<lparr>bf_size := R\<rparr>)"
    define m6 where "m6 = new_metadata_at new (?f a - R - 32) m5"
    have big: "32 + R < ?f a" using True by simp
    have fresh: "new \<notin> set_tree t \<union> A"
      unfolding new_def using blocks_ok_split_fresh[OF blk ain' big] by simp
    have newa: "new \<noteq> a" "new \<noteq> 0" by (simp_all add: new_def)
    have m6o: "\<And>b. b \<noteq> a \<Longrightarrow> b \<noteq> new \<Longrightarrow> m6 b = m1 b"
      by (simp add: m6_def m5_def new_metadata_at_other m4o)
    have m6a: "bf_left (m6 a) = 0" "bf_right (m6 a) = 0" "bf_height (m6 a) = 1"
      "bf_size (m6 a) = R"
      using newa by (simp_all add: m6_def m5_def new_metadata_at_other m4a)
    have m6n: "bf_left (m6 new) = 0" "bf_right (m6 new) = 0" "bf_height (m6 new) = 1"
      "bf_size (m6 new) = ?f a - R - 32"
      by (simp_all add: m6_def new_metadata_at_same)
    have m6t: "\<And>b. b \<in> set_tree t1 \<Longrightarrow> m6 b = m1 b" using st1 fresh m6o by auto
    have "bf_tree_at m6 p1 t1 = bf_tree_at m1 p1 t1"
      by (intro bf_tree_at_frame ballI) (simp add: m6t)
    with t1 have t6: "bf_tree_at m6 p1 t1" by simp
    have h6: "\<forall>b\<in>set_tree t1. 1 \<le> bf_height (m6 b)" using h1 by (simp add: m6t)
    have "bf_ordered (\<lambda>b. bf_size (m6 b)) t1 = bf_ordered ?f t1"
      by (intro bf_ordered_cong ballI) (simp add: m6t sz1)
    with o1 have o6: "bf_ordered (\<lambda>b. bf_size (m6 b)) t1" by simp
    have newt1: "new \<notin> set_tree t1" using fresh st1 by auto
    from bf_insert[OF t6 d1 o6 h6 newt1 newa(2) m6n(1) m6n(2) m6n(3)] obtain p2 m7 t2 where
      ins: "best_fit_insert_recursive new p1 m6 = Some (Inr (p2, m7))"
      and t7: "bf_tree_at m7 p2 t2" and st2: "set_tree t2 = insert new (set_tree t1)"
      and d2: "distinct (inorder t2)" and o7: "bf_ordered (\<lambda>a. bf_size (m7 a)) t2"
      and sz7: "\<forall>b. bf_size (m7 b) = bf_size (m6 b)"
      and fr7: "\<forall>b. b \<notin> set_tree t1 \<longrightarrow> m7 b = m6 b"
      and h7: "\<forall>b\<in>set_tree t2. 1 \<le> bf_height (m7 b)" by blast
    define s' where "s' = s\<lparr>bf_free_head := p1, bf_mem := m1\<rparr>\<lparr>bf_mem := m6\<rparr>
        \<lparr>bf_free_head := p2, bf_mem := m7\<rparr>"
    have res: "best_fit_malloc R s = Some (Inr (a + 32, s'))"
      using search a0 rm True ins
      by (subst best_fit_malloc.simps)
        (simp add: best_fit_remove_from_tree_def best_fit_insert_to_tree_def
          sizeof_best_fit_metadata_t_def Let_def s'_def m6_def m5_def m4_def m3_def m2_def
          new_def add.assoc x1)
    have [simp]: "bf_mem s' = m7" "bf_free_head s' = p2" "bf_sys s' = bf_sys s"
      by (simp_all add: s'_def)
    have at1: "a \<notin> set_tree t1" using st1 by simp
    have m7a: "m7 a = m6 a" using fr7 at1 by simp
    have sza: "bf_size (m7 a) = R" by (simp add: m7a m6a)
    have szn: "bf_size (m7 new) = ?f a - R - 32" using sz7 by (simp add: m6n)
    have szo: "\<And>b. b \<noteq> a \<Longrightarrow> b \<noteq> new \<Longrightarrow> bf_size (m7 b) = ?f b"
      using sz7 sz1 by (simp add: m6o)
    have A7: "\<forall>b\<in>insert a A. bf_left (m7 b) = 0 \<and> bf_right (m7 b) = 0 \<and> bf_height (m7 b) = 1"
    proof
      fix b assume b: "b \<in> insert a A"
      with disj1 have bt: "b \<notin> set_tree t1" by auto
      from b consider "b = a" | "b \<in> A" "b \<noteq> a" using aA by blast
      then show "bf_left (m7 b) = 0 \<and> bf_right (m7 b) = 0 \<and> bf_height (m7 b) = 1"
      proof cases
        case 1
        then show ?thesis by (simp add: m7a m6a)
      next
        case 2
        with fresh have "b \<noteq> new" by auto
        with 2 bt fr7 m6o have "m7 b = m1 b" by simp
        moreover from 2 disj have "b \<notin> set_tree t" by auto
        ultimately show ?thesis using fr1 Ap 2 by simp
      qed
    qed
    have blk7: "blocks_ok 32 (\<lambda>b. bf_size (m7 b)) (insert (a + 32 + R) (set_tree t \<union> A))
        (next_page (bf_sys s))"
      using blk ain' big
    proof (rule blocks_ok_split)
      show "bf_size (m7 a) = R" by (rule sza)
      show "bf_size (m7 (a + 32 + R)) = ?f a - R - 32" using szn by (simp add: new_def)
      show "\<forall>b\<in>set_tree t \<union> A. b \<noteq> a \<longrightarrow> bf_size (m7 b) = ?f b"
        using szo fresh by auto
    qed simp
    have "insert (a + 32 + R) (set_tree t \<union> A) = set_tree t2 \<union> insert a A"
      using st2 st1 ain by (auto simp: new_def)
    with blk7 have blk7': "blocks_ok 32 (\<lambda>b. bf_size (m7 b)) (set_tree t2 \<union> insert a A)
        (next_page (bf_sys s))" by simp
    have disj2: "set_tree t2 \<inter> insert a A = {}"
      using st2 disj1 fresh newa by auto
    have "bf_inv s' t2 (insert a A)"
      using t7 d2 o7 h7 disj2 A7 blk7' np
      by (simp add: bf_inv_def sizeof_best_fit_metadata_t_def)
    with res True st2 st1 sza szn szo show ?thesis
      by (intro exI[of _ s'] exI[of _ t2]) (simp add: sizeof_best_fit_metadata_t_def new_def)
  qed
qed

lemma bf_page_insert:
  assumes inv: "bf_inv s t A"
  shows "\<exists>s1 t1. best_fit_insert_to_tree (next_page (bf_sys s)) (bf_format_page s) = Some (Inr s1) \<and>
     bf_inv s1 t1 A \<and> set_tree t1 = insert (next_page (bf_sys s)) (set_tree t) \<and>
     bf_size (bf_mem s1 (next_page (bf_sys s))) = 4096 - sizeof_best_fit_metadata_t \<and>
     (\<forall>b. b \<noteq> next_page (bf_sys s) \<longrightarrow> bf_size (bf_mem s1 b) = bf_size (bf_mem s b)) \<and>
     bf_sys s1 = (bf_sys s)\<lparr>mmap_size := mmap_size (bf_sys s) + 4096,
                            next_page := next_page (bf_sys s) + 4096\<rparr>"
proof -
  let ?f = "\<lambda>a. bf_size (bf_mem s a)"
  let ?m = "bf_mem s"
  let ?p = "next_page (bf_sys s)"
  from inv have tr: "bf_tree_at ?m (bf_free_head s) t" and d: "distinct (inorder t)"
    and o: "bf_ordered ?f t" and h: "\<forall>b\<in>set_tree t. 1 \<le> bf_height (?m b)"
    and disj: "set_tree t \<inter> A = {}"
    and Ap: "\<forall>b\<in>A. bf_left (?m b) = 0 \<and> bf_right (?m b) = 0 \<and> bf_height (?m b) = 1"
    and blk: "blocks_ok 32 ?f (set_tree t \<union> A) ?p"
    and np: "?p \<noteq> 0"
    by (simp_all add: bf_inv_def sizeof_best_fit_metadata_t_def)
  define m0 where "m0 = new_metadata_at ?p 4064 ?m"
  have fresh: "?p \<notin> set_tree t \<union> A" using blocks_ok_fresh_top[OF blk] by simp
  have m0o: "\<And>b. b \<noteq> ?p \<Longrightarrow> m0 b = ?m b" by (simp add: m0_def new_metadata_at_other)
  have m0p: "bf_left (m0 ?p) = 0" "bf_right (m0 ?p) = 0" "bf_height (m0 ?p) = 1"
    "bf_size (m0 ?p) = 4064"
    by (simp_all add: m0_def new_metadata_at_same)
  have m0t: "\<And>b. b \<in> set_tree t \<Longrightarrow> m0 b = ?m b" using fresh m0o by (metis UnCI)
  have "bf_tree_at m0 (bf_free_head s) t = bf_tree_at ?m (bf_free_head s) t"
    by (intro bf_tree_at_frame ballI) (simp add: m0t)
  with tr have t0: "bf_tree_at m0 (bf_free_head s) t" by simp
  have h0: "\<forall>b\<in>set_tree t. 1 \<le> bf_height (m0 b)" using h by (simp add: m0t)
  have "bf_ordered (\<lambda>b. bf_size (m0 b)) t = bf_ordered ?f t"
    by (intro bf_ordered_cong ballI) (simp add: m0t)
  with o have o0: "bf_ordered (\<lambda>b. bf_size (m0 b)) t" by simp
  have pt: "?p \<notin> set_tree t" using fresh by simp
  from bf_insert[OF t0 d o0 h0 pt np m0p(1) m0p(2) m0p(3)] obtain p1 m1 t1 where
    ins: "best_fit_insert_recursive ?p (bf_free_head s) m0 = Some (Inr (p1, m1))"
    and t1: "bf_tree_at m1 p1 t1" and st1: "set_tree t1 = insert ?p (set_tree t)"
    and d1: "distinct (inorder t1)" and o1: "bf_ordered (\<lambda>a. bf_size (m1 a)) t1"
    and sz1: "\<forall>b. bf_size (m1 b) = bf_size (m0 b)"
    and fr1: "\<forall>b. b \<notin> set_tree t \<longrightarrow> m1 b = m0 b"
    and h1: "\<forall>b\<in>set_tree t1. 1 \<le> bf_height (m1 b)" by blast
  define s1 where "s1 = (bf_format_page s)\<lparr>bf_free_head := p1, bf_mem := m1\<rparr>"
  have res: "best_fit_insert_to_tree ?p (bf_format_page s) = Some (Inr s1)"
    using ins
    by (simp add: best_fit_insert_to_tree_def bf_format_page_def s1_def m0_def
        sizeof_best_fit_metadata_t_def)
  have [simp]: "bf_mem s1 = m1" "bf_free_head s1 = p1"
    "bf_sys s1 = (bf_sys s)\<lparr>mmap_size := mmap_size (bf_sys s) + 4096,
                            next_page := next_page (bf_sys s) + 4096\<rparr>"
    by (simp_all add: s1_def bf_format_page_def)
  have szp: "bf_size (m1 ?p) = 4064" using sz1 m0p by simp
  have szo: "\<And>b. b \<noteq> ?p \<Longrightarrow> bf_size (m1 b) = ?f b" using sz1 m0o by simp
  have A1: "\<forall>b\<in>A. bf_left (m1 b) = 0 \<and> bf_right (m1 b) = 0 \<and> bf_height (m1 b) = 1"
  proof
    fix b assume b: "b \<in> A"
    with disj fresh have "b \<notin> set_tree t" "b \<noteq> ?p" by auto
    with fr1 m0o have "m1 b = ?m b" by simp
    with Ap b show "bf_left (m1 b) = 0 \<and> bf_right (m1 b) = 0 \<and> bf_height (m1 b) = 1" by simp
  qed
  have "blocks_ok 32 (\<lambda>b. bf_size (m1 b)) (insert ?p (set_tree t \<union> A)) (?p + 4096)"
    using blk np
  proof (rule blocks_ok_page)
    show "bf_size (m1 ?p) = 4096 - 32" using szp by simp
    show "\<forall>a\<in>set_tree t \<union> A. bf_size (m1 a) = ?f a" using szo fresh by (metis)
  qed simp
  moreover have "insert ?p (set_tree t \<union> A) = set_tree t1 \<union> A" using st1 by auto
  ultimately have blk1: "blocks_ok 32 (\<lambda>b. bf_size (m1 b)) (set_tree t1 \<union> A) (?p + 4096)"
    by simp
  have disj1: "set_tree t1 \<inter> A = {}" using st1 disj fresh by auto
  have "bf_inv s1 t1 A"
    using t1 d1 o1 h1 disj1 A1 blk1
    by (simp add: bf_inv_def sizeof_best_fit_metadata_t_def)
  with res st1 szp szo show ?thesis
    by (intro exI[of _ s1] exI[of _ t1]) (simp add: sizeof_best_fit_metadata_t_def)
qed

lemma bf_inv_sizes:
  "bf_inv s t A \<Longrightarrow> b \<in> set_tree t \<Longrightarrow> bf_size (bf_mem s b) \<le> 4064"
  by (auto simp: bf_inv_def blocks_ok_def sizeof_best_fit_metadata_t_def)

lemma best_fit_malloc_grow:
  assumes inv: "bf_inv s t A" and none: "\<forall>b\<in>set_tree t. bf_size (bf_mem s b) < R"
    and ins: "best_fit_insert_to_tree (next_page (bf_sys s)) (bf_format_page s) = Some (Inr s1)"
  shows "best_fit_malloc R s = best_fit_malloc R s1"
proof -
  from inv have tr: "bf_tree_at (bf_mem s) (bf_free_head s) t"
    and np: "next_page (bf_sys s) \<noteq> 0"
    by (simp_all add: bf_inv_def)
  have "best_fit_search (bf_mem s) R (bf_free_head s) 0 =
      Some (bf_best (\<lambda>a. bf_size (bf_mem s a)) R t 0)"
    using tr by (rule best_fit_search_best)
  with none have search: "best_fit_search (bf_mem s) R (bf_free_head s) 0 = Some 0"
    by (simp add: bf_best_none)
  show ?thesis
    using search np ins
    by (subst best_fit_malloc.simps)
      (simp add: mmap_from_system_def bf_format_page_def Let_def)
qed

lemma best_fit_malloc_diverges:
  assumes "bf_inv s t A" and "4096 - sizeof_best_fit_metadata_t < R"
  shows "best_fit_malloc R s = None"
proof (rule ccontr)
  assume "best_fit_malloc R s \<noteq> None"
  then obtain y where y: "best_fit_malloc R s = Some y" by auto
  have "\<not> (4064 < R \<and> (\<exists>t A. bf_inv s t A))"
  proof (rule best_fit_malloc.raw_induct[where P = "\<lambda>R s y. \<not> (4064 < R \<and> (\<exists>t A. bf_inv s t A))",
        OF _ y], goal_cases)
    case (1 f R s y)
    show ?case
    proof
      assume "4064 < R \<and> (\<exists>t A. bf_inv s t A)"
      then obtain t A where R: "4064 < R" and inv: "bf_inv s t A" by blast
      from inv have tr: "bf_tree_at (bf_mem s) (bf_free_head s) t"
        and np: "next_page (bf_sys s) \<noteq> 0"
        by (simp_all add: bf_inv_def)
      have none: "\<forall>b\<in>set_tree t. bf_size (bf_mem s b) < R"
        using bf_inv_sizes[OF inv] R by fastforce
      have "best_fit_search (bf_mem s) R (bf_free_head s) 0 =
          Some (bf_best (\<lambda>a. bf_size (bf_mem s a)) R t 0)"
        using tr by (rule best_fit_search_best)
      with none have search: "best_fit_search (bf_mem s) R (bf_free_head s) 0 = Some 0"
        by (simp add: bf_best_none)
      from bf_page_insert[OF inv] obtain s1 t1 where
        ins: "best_fit_insert_to_tree (next_page (bf_sys s)) (bf_format_page s) = Some (Inr s1)"
        and inv1: "bf_inv s1 t1 A" by blast
      from 1(2) have "f R s1 = Some y"
        using search np ins
        by (simp add: mmap_from_system_def bf_format_page_def Let_def)
      from 1(1)[OF this] R inv1 show False by blast
    qed
  qed
  with assms show False by (auto simp: sizeof_best_fit_metadata_t_def)
qed

lemma bf_free_inv:
  assumes inv: "bf_inv s t A" and a: "a \<in> A"
  shows "\<exists>s' t'. best_fit_free (a + sizeof_best_fit_metadata_t) s = Some (Inr s') \<and>
     bf_inv s' t' (A - {a}) \<and> set_tree t' = insert a (set_tree t) \<and>
     (\<forall>b. bf_size (bf_mem s' b) = bf_size (bf_mem s b)) \<and>
     (\<forall>b. b \<notin> set_tree t \<longrightarrow> bf_mem s' b = bf_mem s b) \<and> bf_sys s' = bf_sys s"
proof -
  let ?f = "\<lambda>a. bf_size (bf_mem s a)"
  let ?m = "bf_mem s"
  from inv have tr: "bf_tree_at ?m (bf_free_head s) t" and d: "distinct (inorder t)"
    and o: "bf_ordered ?f t" and h: "\<forall>b\<in>set_tree t. 1 \<le> bf_height (?m b)"
    and disj: "set_tree t \<inter> A = {}"
    and Ap: "\<forall>b\<in>A. bf_left (?m b) = 0 \<and> bf_right (?m b) = 0 \<and> bf_height (?m b) = 1"
    and blk: "blocks_ok 32 ?f (set_tree t \<union> A) (next_page (bf_sys s))"
    and np: "next_page (bf_sys s) \<noteq> 0"
    by (simp_all add: bf_inv_def sizeof_best_fit_metadata_t_def)
  from a disj have at: "a \<notin> set_tree t" by auto
  from a blk have a0: "a \<noteq> 0" by (auto simp: blocks_ok_def)
  from a Ap have al: "bf_left (?m a) = 0" and ar: "bf_right (?m a) = 0"
    and ah: "bf_height (?m a) = 1" by auto
  from bf_insert[OF tr d o h at a0 al ar ah] obtain p1 m1 t1 where
    ins: "best_fit_insert_recursive a (bf_free_head s) ?m = Some (Inr (p1, m1))"
    and t1: "bf_tree_at m1 p1 t1" and st1: "set_tree t1 = insert a (set_tree t)"
    and d1: "distinct (inorder t1)" and o1: "bf_ordered (\<lambda>a. bf_size (m1 a)) t1"
    and sz1: "\<forall>b. bf_size (m1 b) = bf_size (?m b)"
    and fr1: "\<forall>b. b \<notin> set_tree t \<longrightarrow> m1 b = ?m b"
    and h1: "\<forall>b\<in>set_tree t1. 1 \<le> bf_height (m1 b)" by blast
  define s' where "s' = s\<lparr>bf_free_head := p1, bf_mem := m1\<rparr>"
  have res: "best_fit_free (a + sizeof_best_fit_metadata_t) s = Some (Inr s')"
    using ins by (simp add: best_fit_free_def best_fit_insert_to_tree_def s'_def)
  have [simp]: "bf_mem s' = m1" "bf_free_head s' = p1" "bf_sys s' = bf_sys s"
    by (simp_all add: s'_def)
  have A1: "\<forall>b\<in>A - {a}. bf_left (m1 b) = 0 \<and> bf_right (m1 b) = 0 \<and> bf_height (m1 b) = 1"
  proof
    fix b assume b: "b \<in> A - {a}"
    with disj have "b \<notin> set_tree t" by auto
    with fr1 Ap b show "bf_left (m1 b) = 0 \<and> bf_right (m1 b) = 0 \<and> bf_height (m1 b) = 1"
      by simp
  qed
  have "(\<lambda>b. bf_size (m1 b)) = ?f" using sz1 by auto
  moreover have "set_tree t1 \<union> (A - {a}) = set_tree t \<union> A" using st1 a by auto
  moreover have "set_tree t1 \<inter> (A - {a}) = {}" using st1 disj by auto
  ultimately have "bf_inv s' t1 (A - {a})"
    using t1 d1 o1 h1 A1 blk np
    by (simp add: bf_inv_def sizeof_best_fit_metadata_t_def)
  with res st1 sz1 fr1 show ?thesis
    by (intro exI[of _ s'] exI[of _ t1]) simp
qed

lemma bf_inv_initialize:
  assumes "best_fit_dummy + sizeof_best_fit_metadata_t \<le> next_page (bf_sys s)"
  shows "bf_inv (best_fit_initialize s) (Node Leaf best_fit_dummy Leaf) {}"
  using assms
  by (simp add: bf_inv_def best_fit_initialize_def best_fit_dummy_def blocks_ok_def
      sizeof_best_fit_metadata_t_def bf_ordered_def)

section \<open>Allocation as a whole\<close>

lemma bf_search_found:
  assumes inv: "bf_inv s t A"
    and search: "best_fit_search (bf_mem s) R (bf_free_head s) 0 = Some best"
    and best: "best \<noteq> 0"
  shows "(\<exists>b\<in>set_tree t. R \<le> bf_size (bf_mem s b)) \<and>
     best = bf_best (\<lambda>a. bf_size (bf_mem s a)) R t 0"
proof -
  from inv have tr: "bf_tree_at (bf_mem s) (bf_free_head s) t" by (simp add: bf_inv_def)
  from best_fit_search_best[OF tr, of R 0] search
  have eq: "best = bf_best (\<lambda>a. bf_size (bf_mem s a)) R t 0" by simp
  have "\<exists>b\<in>set_tree t. R \<le> bf_size (bf_mem s b)"
  proof (rule ccontr)
    assume "\<not> (\<exists>b\<in>set_tree t. R \<le> bf_size (bf_mem s b))"
    then have "\<forall>b\<in>set_tree t. bf_size (bf_mem s b) < R" by (auto simp: not_le)
    from bf_best_none[OF this, of 0] eq best show False by simp
  qed
  with eq show ?thesis by simp
qed

lemma ff_scan_found_split:
  assumes inv: "ff_inv s xs A"
    and scan: "first_fit_scan (ff_mem s) R (ff_free_head s) 0 = Some (a, prev)"
    and a: "a \<noteq> 0"
  shows "\<exists>pre post. xs = pre @ a # post \<and> (\<forall>b\<in>set pre. ff_size (ff_mem s b) < R) \<and>
     R \<le> ff_size (ff_mem s a)"
proof -
  from inv have l: "ff_list_at (ff_mem s) (ff_free_head s) xs" by (simp add: ff_inv_def)
  have "\<exists>b\<in>set xs. R \<le> ff_size (ff_mem s b)"
  proof (rule ccontr)
    assume "\<not> (\<exists>b\<in>set xs. R \<le> ff_size (ff_mem s b))"
    then have "\<forall>b\<in>set xs. ff_size (ff_mem s b) < R" by (auto simp: not_le)
    from first_fit_scan_none[OF l this, of 0] scan a show False by simp
  qed
  from split_list_first_prop[OF this] obtain pre c post where
    xs: "xs = pre @ c # post" and c: "R \<le> ff_size (ff_mem s c)"
    and pre: "\<forall>b\<in>set pre. \<not> R \<le> ff_size (ff_mem s b)" by blast
  from pre have small: "\<forall>b\<in>set pre. ff_size (ff_mem s b) < R" by (auto simp: not_le)
  from first_fit_scan_found[OF l[unfolded xs] small c, of 0] scan have "c = a" by simp
  with xs small c show ?thesis by blast
qed

lemma bf_malloc_total:
  assumes inv: "bf_inv s t A" and R: "R \<le> 4096 - sizeof_best_fit_metadata_t"
  shows "\<exists>a s' t'. best_fit_malloc R s = Some (Inr (a + sizeof_best_fit_metadata_t, s')) \<and>
     bf_inv s' t' (insert a A) \<and> a \<notin> A \<and>
     (if \<exists>b\<in>set_tree t. R \<le> bf_size (bf_mem s b)
      then a = bf_best (\<lambda>a. bf_size (bf_mem s a)) R t 0 \<and> bf_sys s' = bf_sys s
      else a = next_page (bf_sys s) \<and>
           bf_sys s' = (bf_sys s)\<lparr>mmap_size := mmap_size (bf_sys s) + 4096,
                                  next_page := next_page (bf_sys s) + 4096\<rparr>)"
proof (cases "\<exists>b\<in>set_tree t. R \<le> bf_size (bf_mem s b)")
  case True
  let ?a = "bf_best (\<lambda>a. bf_size (bf_mem s a)) R t 0"
  from bf_malloc_found[OF inv True] obtain s' t' where
    res: "best_fit_malloc R s = Some (Inr (?a + sizeof_best_fit_metadata_t, s'))"
    and sys: "bf_sys s' = bf_sys s" and inv': "bf_inv s' t' (insert ?a A)" by blast
  from inv have o: "bf_ordered (\<lambda>a. bf_size (bf_mem s a)) t" and disj: "set_tree t \<inter> A = {}"
    by (simp_all add: bf_inv_def)
  from bf_best_fits[OF o True, of 0] disj have "?a \<notin> A" by auto
  with res sys inv' True show ?thesis by auto
next
  case False
  let ?p = "next_page (bf_sys s)"
  from False have none: "\<forall>b\<in>set_tree t. bf_size (bf_mem s b) < R" by (auto simp: not_le)
  from bf_page_insert[OF inv] obtain s1 t1 where
    ins: "best_fit_insert_to_tree ?p (bf_format_page s) = Some (Inr s1)"
    and inv1: "bf_inv s1 t1 A" and st1: "set_tree t1 = insert ?p (set_tree t)"
    and szp: "bf_size (bf_mem s1 ?p) = 4096 - sizeof_best_fit_metadata_t"
    and szo: "\<forall>b. b \<noteq> ?p \<longrightarrow> bf_size (bf_mem s1 b) = bf_size (bf_mem s b)"
    and sys1: "bf_sys s1 = (bf_sys s)\<lparr>mmap_size := mmap_size (bf_sys s) + 4096,
                                       next_page := next_page (bf_sys s) + 4096\<rparr>" by blast
  have grow: "best_fit_malloc R s = best_fit_malloc R s1"
    using inv none ins by (rule best_fit_malloc_grow)
  let ?f1 = "\<lambda>a. bf_size (bf_mem s1 a)"
  let ?a = "bf_best ?f1 R t1 0"
  have ex1: "\<exists>b\<in>set_tree t1. R \<le> ?f1 b" using st1 szp R by auto
  from bf_malloc_found[OF inv1 ex1] obtain s' t' where
    res: "best_fit_malloc R s1 = Some (Inr (?a + sizeof_best_fit_metadata_t, s'))"
    and sys: "bf_sys s' = bf_sys s1" and inv': "bf_inv s' t' (insert ?a A)" by blast
  from inv1 have o1: "bf_ordered ?f1 t1" and disj1: "set_tree t1 \<inter> A = {}"
    by (simp_all add: bf_inv_def)
  from bf_best_fits[OF o1 ex1, of 0] have ain: "?a \<in> set_tree t1" and fit: "R \<le> ?f1 ?a"
    by simp_all
  have ap: "?a = ?p"
  proof (rule ccontr)
    assume ne: "?a \<noteq> ?p"
    with ain st1 have "?a \<in> set_tree t" by auto
    with none have "bf_size (bf_mem s ?a) < R" by simp
    with szo ne fit show False by simp
  qed
  from ain disj1 have "?a \<notin> A" by auto
  with res grow sys sys1 inv' ap False show ?thesis by auto
qed

lemma ff_malloc_total:
  assumes inv: "ff_inv s xs A" and R: "R \<le> 4096 - sizeof_first_fit_metadata_t"
  shows "\<exists>a s' xs'. first_fit_malloc R s = Some (Inr (a + sizeof_first_fit_metadata_t, s')) \<and>
     ff_inv s' xs' (insert a A) \<and> a \<notin> A \<and>
     (if \<exists>b\<in>set xs. R \<le> ff_size (ff_mem s b)
      then a \<in> set xs \<and> ff_sys s' = ff_sys s
      else a = next_page (ff_sys s) \<and>
           ff_sys s' = (ff_sys s)\<lparr>mmap_size := mmap_size (ff_sys s) + 4096,
                                  next_page := next_page (ff_sys s) + 4096\<rparr>)"
proof (cases "\<exists>b\<in>set xs. R \<le> ff_size (ff_mem s b)")
  case True
  from split_list_first_prop[OF True] obtain pre a post where
    xs: "xs = pre @ a # post" and c: "R \<le> ff_size (ff_mem s a)"
    and pre: "\<forall>b\<in>set pre. \<not> R \<le> ff_size (ff_mem s b)" by blast
  from pre have small: "\<forall>b\<in>set pre. ff_size (ff_mem s b) < R" by (auto simp: not_le)
  from ff_malloc_found[OF inv[unfolded xs] small c] obtain s' where
    res: "first_fit_malloc R s = Some (Inr (a + sizeof_first_fit_metadata_t, s'))"
    and sys: "ff_sys s' = ff_sys s"
    and inv': "\<exists>xs'. ff_inv s' xs' (insert a A)"
    by (auto split: if_splits)
  from inv xs have "a \<notin> A" by (auto simp: ff_inv_def)
  with res sys inv' True xs show ?thesis by auto
next
  case False
  let ?p = "next_page (ff_sys s)"
  let ?s1 = "ff_map_page s"
  from False have none: "\<forall>b\<in>set xs. ff_size (ff_mem s b) < R" by (auto simp: not_le)
  have grow: "first_fit_malloc R s = first_fit_malloc R ?s1"
    using inv none by (rule first_fit_malloc_grow)
  have inv1: "ff_inv ?s1 ([] @ ?p # xs) A" using ff_inv_map_page[OF inv] by simp
  have szp: "R \<le> ff_size (ff_mem ?s1 ?p)"
    using R by (simp add: ff_map_page_def Let_def)
  from ff_malloc_found[OF inv1 _ szp] obtain s' where
    res: "first_fit_malloc R ?s1 = Some (Inr (?p + sizeof_first_fit_metadata_t, s'))"
    and sys: "ff_sys s' = ff_sys ?s1"
    and inv': "\<exists>xs'. ff_inv s' xs' (insert ?p A)"
    by (auto split: if_splits)
  from inv1 have "?p \<notin> A" by (auto simp: ff_inv_def)
  moreover have "ff_sys ?s1 = (ff_sys s)\<lparr>mmap_size := mmap_size (ff_sys s) + 4096,
                                  next_page := next_page (ff_sys s) + 4096\<rparr>"
    by (simp add: ff_map_page_def Let_def)
  ultimately show ?thesis using res grow sys inv' False by auto
qed

section \<open>Reachable states keep the invariants; live blocks do not overlap\<close>

lemma bf_reach_inv:
  "bf_reach s L \<Longrightarrow> \<exists>t A. bf_inv s t A \<and> L = (\<lambda>a. a + sizeof_best_fit_metadata_t) ` A"
proof (induction rule: bf_reach.induct)
  case (bf_reach_init s)
  from bf_inv_initialize[OF this] show ?case by blast
next
  case (bf_reach_malloc s L R p s')
  then obtain t A where inv: "bf_inv s t A"
    and L: "L = (\<lambda>a. a + sizeof_best_fit_metadata_t) ` A" by blast
  have R: "R \<le> 4096 - sizeof_best_fit_metadata_t"
  proof (rule ccontr)
    assume "\<not> R \<le> 4096 - sizeof_best_fit_metadata_t"
    then have "4096 - sizeof_best_fit_metadata_t < R" by simp
    from best_fit_malloc_diverges[OF inv this] bf_reach_malloc.hyps(2) show False by simp
  qed
  from bf_malloc_total[OF inv R] bf_reach_malloc.hyps(2) obtain a t' where
    "p = a + sizeof_best_fit_metadata_t" "bf_inv s' t' (insert a A)" by auto
  with L show ?case by (intro exI[of _ t'] exI[of _ "insert a A"]) simp
next
  case (bf_reach_free s L p s')
  then obtain t A where inv: "bf_inv s t A"
    and L: "L = (\<lambda>a. a + sizeof_best_fit_metadata_t) ` A" by blast
  from bf_reach_free.hyps(2) L obtain a where a: "a \<in> A"
    and p: "p = a + sizeof_best_fit_metadata_t" by blast
  from bf_free_inv[OF inv a] bf_reach_free.hyps(3) obtain t' where
    "bf_inv s' t' (A - {a})" unfolding p by auto
  moreover have "L - {p} = (\<lambda>a. a + sizeof_best_fit_metadata_t) ` (A - {a})"
    unfolding L p by auto
  ultimately show ?case by blast
qed

lemma ff_reach_inv:
  "ff_reach s L \<Longrightarrow> \<exists>xs A. ff_inv s xs A \<and> L = (\<lambda>a. a + sizeof_first_fit_metadata_t) ` A"
proof (induction rule: ff_reach.induct)
  case (ff_reach_init s)
  from ff_inv_initialize[OF this] show ?case by blast
next
  case (ff_reach_malloc s L R p s')
  then obtain xs A where inv: "ff_inv s xs A"
    and L: "L = (\<lambda>a. a + sizeof_first_fit_metadata_t) ` A" by blast
  have R: "R \<le> 4096 - sizeof_first_fit_metadata_t"
  proof (rule ccontr)
    assume "\<not> R \<le> 4096 - sizeof_first_fit_metadata_t"
    then have "4096 - sizeof_first_fit_metadata_t < R" by simp
    from first_fit_malloc_diverges[OF inv this] ff_reach_malloc.hyps(2) show False by simp
  qed
  from ff_malloc_total[OF inv R] ff_reach_malloc.hyps(2) obtain a xs' where
    "p = a + sizeof_first_fit_metadata_t" "ff_inv s' xs' (insert a A)" by auto
  with L show ?case by (intro exI[of _ xs'] exI[of _ "insert a A"]) simp
next
  case (ff_reach_free s L p s')
  then obtain xs A where inv: "ff_inv s xs A"
    and L: "L = (\<lambda>a. a + sizeof_first_fit_metadata_t) ` A" by blast
  from ff_reach_free.hyps(2) L obtain a where a: "a \<in> A"
    and p: "p = a + sizeof_first_fit_metadata_t" by blast
  from ff_free_inv[OF inv a] ff_reach_free.hyps(3) have
    "ff_inv s' (a # xs) (A - {a})" unfolding p by auto
  moreover have "L - {p} = (\<lambda>a. a + sizeof_first_fit_metadata_t) ` (A - {a})"
    unfolding L p by auto
  ultimately show ?case by blast
qed

lemma bf_reach_no_overlap:
  assumes "bf_reach s L" and "p \<in> L" and "q \<in> L" and "p \<noteq> q"
  shows "p + bf_size (bf_mem s (p - sizeof_best_fit_metadata_t)) \<le> q - sizeof_best_fit_metadata_t \<or>
     q + bf_size (bf_mem s (q - sizeof_best_fit_metadata_t)) \<le> p - sizeof_best_fit_metadata_t"
proof -
  from bf_reach_inv[OF assms(1)] obtain t A where inv: "bf_inv s t A"
    and L: "L = (\<lambda>a. a + sizeof_best_fit_metadata_t) ` A" by blast
  from assms(2,3) L obtain a b where a: "a \<in> A" "p = a + sizeof_best_fit_metadata_t"
    and b: "b \<in> A" "q = b + sizeof_best_fit_metadata_t" by blast
  with assms(4) have "a \<noteq> b" by auto
  with inv a b show ?thesis
    by (auto simp: bf_inv_def blocks_ok_def sizeof_best_fit_metadata_t_def)
qed

lemma ff_reach_no_overlap:
  assumes "ff_reach s L" and "p \<in> L" and "q \<in> L" and "p \<noteq> q"
  shows "p + ff_size (ff_mem s (p - sizeof_first_fit_metadata_t)) \<le> q - sizeof_first_fit_metadata_t \<or>
     q + ff_size (ff_mem s (q - sizeof_first_fit_metadata_t)) \<le> p - sizeof_first_fit_metadata_t"
proof -
  from ff_reach_inv[OF assms(1)] obtain xs A where inv: "ff_inv s xs A"
    and L: "L = (\<lambda>a. a + sizeof_first_fit_metadata_t) ` A" by blast
  from assms(2,3) L obtain a b where a: "a \<in> A" "p = a + sizeof_first_fit_metadata_t"
    and b: "b \<in> A" "q = b + sizeof_first_fit_metadata_t" by blast
  with assms(4) have "a \<noteq> b" by auto
  with inv a b show ?thesis
    by (auto simp: ff_inv_def blocks_ok_def sizeof_first_fit_metadata_t_def)
qed

section \<open>Evaluation of the code on concrete inputs\<close>

lemmas bf_eval =
  best_fit_malloc.simps best_fit_search.simps best_fit_insert_recursive.simps
  best_fit_remove_recursive.simps best_fit_leftmost.simps best_fit_insert_to_tree_def
  best_fit_remove_from_tree_def best_fit_balance_tree_def best_fit_initialize_def
  best_fit_free_def new_metadata_at_def mmap_from_system_def max_c_def
  sizeof_best_fit_metadata_t_def best_fit_dummy_def Let_def

lemmas ff_eval =
  first_fit_malloc.simps first_fit_scan.simps first_fit_add_to_free_list_def
  first_fit_remove_from_free_list_def first_fit_initialize_def first_fit_free_def
  mmap_from_system_def sizeof_first_fit_metadata_t_def first_fit_dummy_def Let_def

lemma bf_example_facts:
  "bf_free_head bf_example = 4152"
  "bf_mem bf_example 8 = \<lparr>bf_size = 0, bf_left = 0, bf_right = 4096, bf_height = 3\<rparr>"
  "bf_mem bf_example 4096 = \<lparr>bf_size = 24, bf_left = 0, bf_right = 0, bf_height = 1\<rparr>"
  "bf_mem bf_example 4152 = \<lparr>bf_size = 40, bf_left = 8, bf_right = 0, bf_height = 2\<rparr>"
  "bf_mem bf_example 4224 = \<lparr>bf_size = 3936, bf_left = 0, bf_right = 0, bf_height = 1\<rparr>"
  "bf_sys bf_example = \<lparr>next_page = 8192, mmap_size = 4096\<rparr>"
  by (simp_all add: bf_example_def bf_eval bf_boot_def)

lemma ff_example_facts:
  "ff_free_head ff_example = 4136"
  "ff_mem ff_example 8 = \<lparr>ff_size = 0, ff_next = 0\<rparr>"
  "ff_mem ff_example 4096 = \<lparr>ff_size = 24, ff_next = 8\<rparr>"
  "ff_mem ff_example 4136 = \<lparr>ff_size = 40, ff_next = 4096\<rparr>"
  "ff_mem ff_example 4192 = \<lparr>ff_size = 3984, ff_next = 0\<rparr>"
  "ff_sys ff_example = \<lparr>next_page = 8192, mmap_size = 4096\<rparr>"
  by (simp_all add: ff_example_def ff_eval ff_boot_def)

lemma bf_example2_facts:
  "bf_free_head bf_example2 = 4136"
  "bf_mem bf_example2 8 = \<lparr>bf_size = 0, bf_left = 0, bf_right = 4096, bf_height = 3\<rparr>"
  "bf_mem bf_example2 4096 = \<lparr>bf_size = 8, bf_left = 0, bf_right = 0, bf_height = 1\<rparr>"
  "bf_mem bf_example2 4136 = \<lparr>bf_size = 4024, bf_left = 8, bf_right = 0, bf_height = 2\<rparr>"
  "bf_sys bf_example2 = \<lparr>next_page = 8192, mmap_size = 4096\<rparr>"
  by (simp_all add: bf_example2_def bf_eval bf_boot_def)

lemma bf_example_inv:
  "bf_inv bf_example (Node (Node Leaf 8 (Node Leaf 4096 Leaf)) 4152 Leaf) {4224}"
  by (simp add: bf_inv_def bf_example_facts bf_ordered_def blocks_ok_def
      sizeof_best_fit_metadata_t_def)

lemma ff_example_inv: "ff_inv ff_example [4136, 4096, 8] {4192}"
  by (simp add: ff_inv_def ff_example_facts blocks_ok_def sizeof_first_fit_metadata_t_def)

lemma bf_example2_inv:
  "bf_inv bf_example2 (Node (Node Leaf 8 (Node Leaf 4096 Leaf)) 4136 Leaf) {}"
  by (simp add: bf_inv_def bf_example2_facts bf_ordered_def blocks_ok_def
      sizeof_best_fit_metadata_t_def)

lemma bf_boot_inv: "bf_inv (best_fit_initialize bf_boot) (Node Leaf best_fit_dummy Leaf) {}"
  by (rule bf_inv_initialize)
    (simp add: bf_boot_def best_fit_dummy_def sizeof_best_fit_metadata_t_def)

lemma ff_boot_inv: "ff_inv (first_fit_initialize ff_boot) [first_fit_dummy] {}"
  by (rule ff_inv_initialize)
    (simp add: ff_boot_def first_fit_dummy_def sizeof_first_fit_metadata_t_def)

section \<open>The allocators\<close>

text \<open>
  C1 (the free tree is AVL balanced after any sequence of inserts and removes): not on
  the code.  \<open>best_fit_balance_tree\<close> rotates once and leaves the stored heights of the
  rotated nodes as they were.  After \<open>best_fit_initialize(); p = best_fit_malloc(8);
  best_fit_free(p)\<close> the root is the block of size 4024 at 4136; its left child is the
  dummy, whose right child is the freed block at 4096, and it has no right child: the
  subtrees of the root have heights 2 and 0, and the stored heights are 3 and 0.
\<close>

theorem best_fit_tree_unbalanced:
  "\<exists>s s'. best_fit_malloc 8 (best_fit_initialize bf_boot) = Some (Inr (4128, s)) \<and>
     best_fit_free 4128 s = Some (Inr s') \<and>
     bf_tree_at (bf_mem s') (bf_free_head s')
       (Node (Node Leaf 8 (Node Leaf 4096 Leaf)) 4136 Leaf) \<and>
     \<not> avl_balanced (Node (Node Leaf (8::addr) (Node Leaf 4096 Leaf)) 4136 Leaf) \<and>
     \<not> avl_stored (bf_mem s') (Node (Node Leaf 8 (Node Leaf 4096 Leaf)) 4136 Leaf)"
  by (simp add: bf_eval bf_boot_def stored_height_def)

text \<open>
  C2: when the search loop of \<open>best_fit_malloc\<close> finds a candidate, the candidate is a
  free block of the tree that fits the request, no fitting free block is smaller, and
  \<open>best_fit_malloc\<close> returns its payload.
\<close>

theorem best_fit_chooses_minimum:
  assumes "bf_inv s t A"
    and "best_fit_search (bf_mem s) R (bf_free_head s) 0 = Some best"
    and "best \<noteq> 0"
  shows "best \<in> set_tree t \<and> R \<le> bf_size (bf_mem s best) \<and>
     (\<forall>b\<in>set_tree t. R \<le> bf_size (bf_mem s b) \<longrightarrow>
        bf_size (bf_mem s best) \<le> bf_size (bf_mem s b)) \<and>
     (\<exists>s'. best_fit_malloc R s = Some (Inr (best + sizeof_best_fit_metadata_t, s')))"
proof -
  from bf_search_found[OF assms] have ex: "\<exists>b\<in>set_tree t. R \<le> bf_size (bf_mem s b)"
    and eq: "best = bf_best (\<lambda>a. bf_size (bf_mem s a)) R t 0" by simp_all
  from assms(1) have o: "bf_ordered (\<lambda>a. bf_size (bf_mem s a)) t" by (simp add: bf_inv_def)
  from bf_best_fits[OF o ex, of 0] bf_malloc_found[OF assms(1) ex] eq
  show ?thesis by auto
qed

theorem best_fit_chooses_minimum_witness:
  "bf_inv bf_example (Node (Node Leaf 8 (Node Leaf 4096 Leaf)) 4152 Leaf) {4224} \<and>
   map (\<lambda>a. bf_size (bf_mem bf_example a)) [8, 4096, 4152] = [0, 24, 40] \<and>
   best_fit_search (bf_mem bf_example) 20 (bf_free_head bf_example) 0 = Some 4096 \<and>
   (\<exists>s'. best_fit_malloc 20 bf_example = Some (Inr (4128, s')))"
proof -
  have search: "best_fit_search (bf_mem bf_example) 20 (bf_free_head bf_example) 0 = Some 4096"
    by (simp add: best_fit_search.simps bf_example_facts)
  from best_fit_chooses_minimum[OF bf_example_inv search] search bf_example_inv
  show ?thesis by (simp add: bf_example_facts sizeof_best_fit_metadata_t_def)
qed

text \<open>
  C3: the block chosen for a request of \<open>R\<close> bytes, of size \<open>S\<close>, is split when
  \<open>S - R > sizeof(header)\<close>: its size becomes \<open>R\<close>, a header for
  \<open>S - R - sizeof(header)\<close> bytes is written right behind its payload, and that new
  block is in the free collection afterwards; otherwise the block is handed out whole,
  its size field as it was.  First for best-fit, then for first-fit.
\<close>

theorem split_rule:
  "(bf_inv s t A \<and> best_fit_search (bf_mem s) R (bf_free_head s) 0 = Some best \<and> best \<noteq> 0 \<longrightarrow>
      R \<le> bf_size (bf_mem s best) \<and>
      (\<exists>s' t'. best_fit_malloc R s = Some (Inr (best + sizeof_best_fit_metadata_t, s')) \<and>
         bf_inv s' t' (insert best A) \<and>
         (if sizeof_best_fit_metadata_t < bf_size (bf_mem s best) - R
          then bf_size (bf_mem s' best) = R \<and>
               bf_size (bf_mem s' (best + sizeof_best_fit_metadata_t + R)) =
                 bf_size (bf_mem s best) - R - sizeof_best_fit_metadata_t \<and>
               set_tree t' = insert (best + sizeof_best_fit_metadata_t + R) (set_tree t - {best})
          else bf_size (bf_mem s' best) = bf_size (bf_mem s best) \<and>
               set_tree t' = set_tree t - {best}))) \<and>
   (ff_inv fs xs fA \<and> first_fit_scan (ff_mem fs) R (ff_free_head fs) 0 = Some (metadata, prev) \<and>
    metadata \<noteq> 0 \<longrightarrow>
      R \<le> ff_size (ff_mem fs metadata) \<and>
      (\<exists>fs' xs'. first_fit_malloc R fs = Some (Inr (metadata + sizeof_first_fit_metadata_t, fs')) \<and>
         ff_inv fs' xs' (insert metadata fA) \<and>
         (if sizeof_first_fit_metadata_t < ff_size (ff_mem fs metadata) - R
          then ff_size (ff_mem fs' metadata) = R \<and>
               ff_size (ff_mem fs' (metadata + sizeof_first_fit_metadata_t + R)) =
                 ff_size (ff_mem fs metadata) - R - sizeof_first_fit_metadata_t \<and>
               xs' = (metadata + sizeof_first_fit_metadata_t + R) # remove1 metadata xs
          else ff_size (ff_mem fs' metadata) = ff_size (ff_mem fs metadata) \<and>
               xs' = remove1 metadata xs)))"
proof (intro conjI impI)
  assume h: "bf_inv s t A \<and> best_fit_search (bf_mem s) R (bf_free_head s) 0 = Some best \<and>
    best \<noteq> 0"
  then have inv: "bf_inv s t A" by simp
  from h bf_search_found[of s t A R best]
  have ex: "\<exists>b\<in>set_tree t. R \<le> bf_size (bf_mem s b)"
    and eq: "best = bf_best (\<lambda>a. bf_size (bf_mem s a)) R t 0" by simp_all
  from inv have o: "bf_ordered (\<lambda>a. bf_size (bf_mem s a)) t" by (simp add: bf_inv_def)
  from bf_best_fits[OF o ex, of 0] eq show "R \<le> bf_size (bf_mem s best)" by simp
  from bf_malloc_found[OF inv ex] obtain s' t' where
    "best_fit_malloc R s = Some (Inr (best + sizeof_best_fit_metadata_t, s'))"
    "bf_inv s' t' (insert best A)"
    "if sizeof_best_fit_metadata_t < bf_size (bf_mem s best) - R
      then set_tree t' = insert (best + sizeof_best_fit_metadata_t + R) (set_tree t - {best}) \<and>
           bf_size (bf_mem s' best) = R \<and>
           bf_size (bf_mem s' (best + sizeof_best_fit_metadata_t + R)) =
             bf_size (bf_mem s best) - R - sizeof_best_fit_metadata_t \<and>
           (\<forall>b. b \<noteq> best \<and> b \<noteq> best + sizeof_best_fit_metadata_t + R \<longrightarrow>
                bf_size (bf_mem s' b) = bf_size (bf_mem s b))
      else set_tree t' = set_tree t - {best} \<and>
           (\<forall>b. bf_size (bf_mem s' b) = bf_size (bf_mem s b))"
    unfolding eq[symmetric] by blast
  then show "\<exists>s' t'. best_fit_malloc R s = Some (Inr (best + sizeof_best_fit_metadata_t, s')) \<and>
         bf_inv s' t' (insert best A) \<and>
         (if sizeof_best_fit_metadata_t < bf_size (bf_mem s best) - R
          then bf_size (bf_mem s' best) = R \<and>
               bf_size (bf_mem s' (best + sizeof_best_fit_metadata_t + R)) =
                 bf_size (bf_mem s best) - R - sizeof_best_fit_metadata_t \<and>
               set_tree t' = insert (best + sizeof_best_fit_metadata_t + R) (set_tree t - {best})
          else bf_size (bf_mem s' best) = bf_size (bf_mem s best) \<and>
               set_tree t' = set_tree t - {best})"
    by (intro exI[of _ s'] exI[of _ t']) (simp split: if_splits)
next
  assume h: "ff_inv fs xs fA \<and>
    first_fit_scan (ff_mem fs) R (ff_free_head fs) 0 = Some (metadata, prev) \<and> metadata \<noteq> 0"
  then have inv: "ff_inv fs xs fA" by simp
  from h ff_scan_found_split[of fs xs fA R metadata prev] obtain pre post where
    xs: "xs = pre @ metadata # post"
    and small: "\<forall>b\<in>set pre. ff_size (ff_mem fs b) < R"
    and fit: "R \<le> ff_size (ff_mem fs metadata)" by blast
  from fit show "R \<le> ff_size (ff_mem fs metadata)" .
  from inv xs have "distinct (pre @ metadata # post)" by (simp add: ff_inv_def)
  then have rm: "remove1 metadata xs = pre @ post" by (simp add: xs remove1_append)
  from ff_malloc_found[OF inv[unfolded xs] small fit] obtain fs' where
    "first_fit_malloc R fs = Some (Inr (metadata + sizeof_first_fit_metadata_t, fs'))"
    "if sizeof_first_fit_metadata_t < ff_size (ff_mem fs metadata) - R
      then ff_inv fs' ((metadata + sizeof_first_fit_metadata_t + R) # pre @ post)
             (insert metadata fA) \<and>
           ff_size (ff_mem fs' metadata) = R \<and>
           ff_size (ff_mem fs' (metadata + sizeof_first_fit_metadata_t + R)) =
             ff_size (ff_mem fs metadata) - R - sizeof_first_fit_metadata_t \<and>
           (\<forall>b. b \<noteq> metadata \<and> b \<noteq> metadata + sizeof_first_fit_metadata_t + R \<longrightarrow>
                ff_size (ff_mem fs' b) = ff_size (ff_mem fs b))
      else ff_inv fs' (pre @ post) (insert metadata fA) \<and>
           (\<forall>b. ff_size (ff_mem fs' b) = ff_size (ff_mem fs b))"
    by blast
  then show "\<exists>fs' xs'. first_fit_malloc R fs =
          Some (Inr (metadata + sizeof_first_fit_metadata_t, fs')) \<and>
         ff_inv fs' xs' (insert metadata fA) \<and>
         (if sizeof_first_fit_metadata_t < ff_size (ff_mem fs metadata) - R
          then ff_size (ff_mem fs' metadata) = R \<and>
               ff_size (ff_mem fs' (metadata + sizeof_first_fit_metadata_t + R)) =
                 ff_size (ff_mem fs metadata) - R - sizeof_first_fit_metadata_t \<and>
               xs' = (metadata + sizeof_first_fit_metadata_t + R) # remove1 metadata xs
          else ff_size (ff_mem fs' metadata) = ff_size (ff_mem fs metadata) \<and>
               xs' = remove1 metadata xs)"
    unfolding rm
    by (intro exI[of _ fs']
        exI[of _ "if sizeof_first_fit_metadata_t < ff_size (ff_mem fs metadata) - R
                  then (metadata + sizeof_first_fit_metadata_t + R) # pre @ post
                  else pre @ post"])
      (simp split: if_splits)
qed

theorem split_rule_witness:
  "bf_inv bf_example2 (Node (Node Leaf 8 (Node Leaf 4096 Leaf)) 4136 Leaf) {} \<and>
   best_fit_search (bf_mem bf_example2) 100 (bf_free_head bf_example2) 0 = Some 4136 \<and>
   bf_size (bf_mem bf_example2 4136) = 4024 \<and>
   (\<exists>s' t'. best_fit_malloc 100 bf_example2 = Some (Inr (4168, s')) \<and>
      bf_size (bf_mem s' 4136) = 100 \<and> bf_size (bf_mem s' 4268) = 3892 \<and>
      bf_inv s' t' {4136} \<and> set_tree t' = {4268, 8, 4096}) \<and>
   ff_inv ff_example [4136, 4096, 8] {4192} \<and>
   first_fit_scan (ff_mem ff_example) 36 (ff_free_head ff_example) 0 = Some (4136, 0) \<and>
   ff_size (ff_mem ff_example 4136) = 40 \<and>
   (\<exists>fs'. first_fit_malloc 36 ff_example = Some (Inr (4152, fs')) \<and>
      ff_size (ff_mem fs' 4136) = 40 \<and> ff_inv fs' [4096, 8] {4136, 4192})"
proof -
  have search: "best_fit_search (bf_mem bf_example2) 100 (bf_free_head bf_example2) 0 = Some 4136"
    by (simp add: best_fit_search.simps bf_example2_facts)
  have scan: "first_fit_scan (ff_mem ff_example) 36 (ff_free_head ff_example) 0 = Some (4136, 0)"
    by (simp add: first_fit_scan.simps ff_example_facts)
  have sets: "insert 4268 ({8, 4096, 4136} - {4136}) = {4268, 8, 4096::nat}" by auto
  from split_rule[THEN conjunct1, of bf_example2
      "Node (Node Leaf 8 (Node Leaf 4096 Leaf)) 4136 Leaf" "{}" 100 4136]
    bf_example2_inv search
  have bf: "\<exists>s' t'. best_fit_malloc 100 bf_example2 = Some (Inr (4168, s')) \<and>
      bf_size (bf_mem s' 4136) = 100 \<and> bf_size (bf_mem s' 4268) = 3892 \<and>
      bf_inv s' t' {4136} \<and> set_tree t' = {4268, 8, 4096}"
    by (simp add: bf_example2_facts sizeof_best_fit_metadata_t_def sets) blast
  from split_rule[THEN conjunct2, of ff_example "[4136, 4096, 8]" "{4192}" 36 4136 0]
    ff_example_inv scan
  have ff: "\<exists>fs'. first_fit_malloc 36 ff_example = Some (Inr (4152, fs')) \<and>
      ff_size (ff_mem fs' 4136) = 40 \<and> ff_inv fs' [4096, 8] {4136, 4192}"
    by (simp add: ff_example_facts sizeof_first_fit_metadata_t_def) blast
  from bf ff search scan bf_example2_inv ff_example_inv show ?thesis
    by (simp add: bf_example2_facts ff_example_facts)
qed

text \<open>
  C4: \<open>first_fit_malloc\<close> returns the payload of the first block of the free list, in
  list order, whose size is not below the request, whatever the sizes of the blocks
  behind it.
\<close>

theorem first_fit_returns_first_fitting_block:
  assumes "ff_inv s (pre @ a # post) A"
    and "\<forall>b\<in>set pre. ff_size (ff_mem s b) < R"
    and "R \<le> ff_size (ff_mem s a)"
  shows "\<exists>s'. first_fit_malloc R s = Some (Inr (a + sizeof_first_fit_metadata_t, s')) \<and>
     ff_sys s' = ff_sys s"
  using ff_malloc_found[OF assms] by blast

theorem first_fit_returns_first_fitting_block_witness:
  "ff_inv ff_example ([] @ 4136 # [4096, 8]) {4192} \<and>
   map (\<lambda>a. ff_size (ff_mem ff_example a)) [4136, 4096, 8] = [40, 24, 0] \<and>
   (\<exists>s'. first_fit_malloc 20 ff_example = Some (Inr (4152, s')))"
proof -
  have inv: "ff_inv ff_example ([] @ 4136 # [4096, 8]) {4192}"
    using ff_example_inv by simp
  have fit: "20 \<le> ff_size (ff_mem ff_example 4136)" by (simp add: ff_example_facts)
  from first_fit_returns_first_fitting_block[OF inv _ fit] inv
  show ?thesis by (auto simp: ff_example_facts sizeof_first_fit_metadata_t_def)
qed

text \<open>
  C5 (a request larger than a page's capacity fails fast after one fresh page; allocate
  terminates for every request size): not on the code.  A request of 5000 bytes never
  returns from either allocator: no block can hold it, each attempt maps one more page
  and calls the allocator again, and the code has no out-of-memory outcome.
\<close>

theorem oversized_request_never_returns:
  "first_fit_malloc 5000 (first_fit_initialize ff_boot) = None \<and>
   best_fit_malloc 5000 (best_fit_initialize bf_boot) = None"
  using first_fit_malloc_diverges[OF ff_boot_inv, of 5000]
    best_fit_malloc_diverges[OF bf_boot_inv, of 5000]
  by (simp add: sizeof_first_fit_metadata_t_def sizeof_best_fit_metadata_t_def)

text \<open>
  C5 as amended: from a state of the allocator, a request larger than
  \<open>4096 - sizeof(header)\<close> never returns, and a request up to that size returns a
  pointer after mapping at most one page (\<open>stats.mmap_size\<close> grows by at most 4096).
\<close>

theorem allocate_returns_iff_request_fits_page:
  "(bf_inv s t A \<longrightarrow>
      (4096 - sizeof_best_fit_metadata_t < R \<longrightarrow> best_fit_malloc R s = None) \<and>
      (R \<le> 4096 - sizeof_best_fit_metadata_t \<longrightarrow>
         (\<exists>p s'. best_fit_malloc R s = Some (Inr (p, s')) \<and>
            mmap_size (bf_sys s') \<le> mmap_size (bf_sys s) + 4096))) \<and>
   (ff_inv fs xs fA \<longrightarrow>
      (4096 - sizeof_first_fit_metadata_t < R \<longrightarrow> first_fit_malloc R fs = None) \<and>
      (R \<le> 4096 - sizeof_first_fit_metadata_t \<longrightarrow>
         (\<exists>p fs'. first_fit_malloc R fs = Some (Inr (p, fs')) \<and>
            mmap_size (ff_sys fs') \<le> mmap_size (ff_sys fs) + 4096)))"
proof (intro conjI impI)
  assume "bf_inv s t A" and "4096 - sizeof_best_fit_metadata_t < R"
  then show "best_fit_malloc R s = None" by (rule best_fit_malloc_diverges)
next
  assume inv: "bf_inv s t A" and R: "R \<le> 4096 - sizeof_best_fit_metadata_t"
  from bf_malloc_total[OF inv R] obtain a s' where
    "best_fit_malloc R s = Some (Inr (a + sizeof_best_fit_metadata_t, s'))"
    "bf_sys s' = bf_sys s \<or>
     bf_sys s' = (bf_sys s)\<lparr>mmap_size := mmap_size (bf_sys s) + 4096,
                            next_page := next_page (bf_sys s) + 4096\<rparr>"
    by (auto split: if_splits)
  then show "\<exists>p s'. best_fit_malloc R s = Some (Inr (p, s')) \<and>
      mmap_size (bf_sys s') \<le> mmap_size (bf_sys s) + 4096"
    by (intro exI[of _ "a + sizeof_best_fit_metadata_t"] exI[of _ s']) auto
next
  assume "ff_inv fs xs fA" and "4096 - sizeof_first_fit_metadata_t < R"
  then show "first_fit_malloc R fs = None" by (rule first_fit_malloc_diverges)
next
  assume inv: "ff_inv fs xs fA" and R: "R \<le> 4096 - sizeof_first_fit_metadata_t"
  from ff_malloc_total[OF inv R] obtain a fs' where
    "first_fit_malloc R fs = Some (Inr (a + sizeof_first_fit_metadata_t, fs'))"
    "ff_sys fs' = ff_sys fs \<or>
     ff_sys fs' = (ff_sys fs)\<lparr>mmap_size := mmap_size (ff_sys fs) + 4096,
                              next_page := next_page (ff_sys fs) + 4096\<rparr>"
    by (auto split: if_splits)
  then show "\<exists>p fs'. first_fit_malloc R fs = Some (Inr (p, fs')) \<and>
      mmap_size (ff_sys fs') \<le> mmap_size (ff_sys fs) + 4096"
    by (intro exI[of _ "a + sizeof_first_fit_metadata_t"] exI[of _ fs']) auto
qed

theorem allocate_returns_iff_request_fits_page_witness:
  "bf_inv bf_example (Node (Node Leaf 8 (Node Leaf 4096 Leaf)) 4152 Leaf) {4224} \<and>
   best_fit_malloc 4072 bf_example = None \<and>
   (\<exists>p s'. best_fit_malloc 4064 bf_example = Some (Inr (p, s')) \<and>
      mmap_size (bf_sys s') \<le> 8192) \<and>
   ff_inv ff_example [4136, 4096, 8] {4192} \<and>
   first_fit_malloc 4088 ff_example = None \<and>
   (\<exists>p fs'. first_fit_malloc 4080 ff_example = Some (Inr (p, fs')) \<and>
      mmap_size (ff_sys fs') \<le> 8192)"
  using allocate_returns_iff_request_fits_page[of bf_example
      "Node (Node Leaf 8 (Node Leaf 4096 Leaf)) 4152 Leaf" "{4224}" 4072
      ff_example "[4136, 4096, 8]" "{4192}"]
    allocate_returns_iff_request_fits_page[of bf_example
      "Node (Node Leaf 8 (Node Leaf 4096 Leaf)) 4152 Leaf" "{4224}" 4064
      ff_example "[4136, 4096, 8]" "{4192}"]
    allocate_returns_iff_request_fits_page[of bf_example
      "Node (Node Leaf 8 (Node Leaf 4096 Leaf)) 4152 Leaf" "{4224}" 4088
      ff_example "[4136, 4096, 8]" "{4192}"]
    allocate_returns_iff_request_fits_page[of bf_example
      "Node (Node Leaf 8 (Node Leaf 4096 Leaf)) 4152 Leaf" "{4224}" 4080
      ff_example "[4136, 4096, 8]" "{4192}"]
    bf_example_inv ff_example_inv
  by (simp add: sizeof_best_fit_metadata_t_def sizeof_first_fit_metadata_t_def
      bf_example_facts ff_example_facts)

text \<open>
  C6: for a request of 8 to 4000 bytes, a multiple of 8, both allocators return a
  non-null payload pointer and map at most one page.  When a page is mapped, it is
  formatted as one free block of \<open>4096 - sizeof(header)\<close> bytes, and the pointer
  returned is the payload of that block: the page satisfied the request.
\<close>

theorem allocate_succeeds_with_at_most_one_page:
  assumes "8 \<le> R" and "R \<le> 4000" and "8 dvd R"
  shows "(bf_inv s t A \<longrightarrow>
      (\<exists>p s' t'. best_fit_malloc R s = Some (Inr (p, s')) \<and> p \<noteq> 0 \<and>
         bf_inv s' t' (insert (p - sizeof_best_fit_metadata_t) A) \<and>
         (mmap_size (bf_sys s') = mmap_size (bf_sys s) \<or>
          mmap_size (bf_sys s') = mmap_size (bf_sys s) + 4096 \<and>
          p = next_page (bf_sys s) + sizeof_best_fit_metadata_t \<and>
          bf_size (bf_mem (bf_format_page s) (next_page (bf_sys s))) =
            4096 - sizeof_best_fit_metadata_t))) \<and>
   (ff_inv fs xs fA \<longrightarrow>
      (\<exists>p fs' xs'. first_fit_malloc R fs = Some (Inr (p, fs')) \<and> p \<noteq> 0 \<and>
         ff_inv fs' xs' (insert (p - sizeof_first_fit_metadata_t) fA) \<and>
         (mmap_size (ff_sys fs') = mmap_size (ff_sys fs) \<or>
          mmap_size (ff_sys fs') = mmap_size (ff_sys fs) + 4096 \<and>
          p = next_page (ff_sys fs) + sizeof_first_fit_metadata_t \<and>
          ff_size (ff_mem (ff_map_page fs) (next_page (ff_sys fs))) =
            4096 - sizeof_first_fit_metadata_t)))"
proof (intro conjI impI)
  assume inv: "bf_inv s t A"
  from assms have R: "R \<le> 4096 - sizeof_best_fit_metadata_t"
    by (simp add: sizeof_best_fit_metadata_t_def)
  from bf_malloc_total[OF inv R] obtain a s' t' where
    res: "best_fit_malloc R s = Some (Inr (a + sizeof_best_fit_metadata_t, s'))"
    and inv': "bf_inv s' t' (insert a A)"
    and cases: "bf_sys s' = bf_sys s \<or>
      a = next_page (bf_sys s) \<and>
      bf_sys s' = (bf_sys s)\<lparr>mmap_size := mmap_size (bf_sys s) + 4096,
                             next_page := next_page (bf_sys s) + 4096\<rparr>"
    by (auto split: if_splits)
  have fmt: "bf_size (bf_mem (bf_format_page s) (next_page (bf_sys s))) =
      4096 - sizeof_best_fit_metadata_t"
    by (simp add: bf_format_page_def new_metadata_at_same)
  from res inv' cases fmt
  show "\<exists>p s' t'. best_fit_malloc R s = Some (Inr (p, s')) \<and> p \<noteq> 0 \<and>
         bf_inv s' t' (insert (p - sizeof_best_fit_metadata_t) A) \<and>
         (mmap_size (bf_sys s') = mmap_size (bf_sys s) \<or>
          mmap_size (bf_sys s') = mmap_size (bf_sys s) + 4096 \<and>
          p = next_page (bf_sys s) + sizeof_best_fit_metadata_t \<and>
          bf_size (bf_mem (bf_format_page s) (next_page (bf_sys s))) =
            4096 - sizeof_best_fit_metadata_t)"
    by (intro exI[of _ "a + sizeof_best_fit_metadata_t"] exI[of _ s'] exI[of _ t'])
      (auto simp: sizeof_best_fit_metadata_t_def)
next
  assume inv: "ff_inv fs xs fA"
  from assms have R: "R \<le> 4096 - sizeof_first_fit_metadata_t"
    by (simp add: sizeof_first_fit_metadata_t_def)
  from ff_malloc_total[OF inv R] obtain a fs' xs' where
    res: "first_fit_malloc R fs = Some (Inr (a + sizeof_first_fit_metadata_t, fs'))"
    and inv': "ff_inv fs' xs' (insert a fA)"
    and cases: "ff_sys fs' = ff_sys fs \<or>
      a = next_page (ff_sys fs) \<and>
      ff_sys fs' = (ff_sys fs)\<lparr>mmap_size := mmap_size (ff_sys fs) + 4096,
                               next_page := next_page (ff_sys fs) + 4096\<rparr>"
    by (auto split: if_splits)
  have fmt: "ff_size (ff_mem (ff_map_page fs) (next_page (ff_sys fs))) =
      4096 - sizeof_first_fit_metadata_t"
    by (simp add: ff_map_page_def Let_def)
  from res inv' cases fmt
  show "\<exists>p fs' xs'. first_fit_malloc R fs = Some (Inr (p, fs')) \<and> p \<noteq> 0 \<and>
         ff_inv fs' xs' (insert (p - sizeof_first_fit_metadata_t) fA) \<and>
         (mmap_size (ff_sys fs') = mmap_size (ff_sys fs) \<or>
          mmap_size (ff_sys fs') = mmap_size (ff_sys fs) + 4096 \<and>
          p = next_page (ff_sys fs) + sizeof_first_fit_metadata_t \<and>
          ff_size (ff_mem (ff_map_page fs) (next_page (ff_sys fs))) =
            4096 - sizeof_first_fit_metadata_t)"
    by (intro exI[of _ "a + sizeof_first_fit_metadata_t"] exI[of _ fs'] exI[of _ xs'])
      (auto simp: sizeof_first_fit_metadata_t_def)
qed

theorem allocate_succeeds_with_at_most_one_page_witness:
  "(8::nat) \<le> 128 \<and> (128::nat) \<le> 4000 \<and> (8::nat) dvd 128 \<and>
   bf_inv bf_example (Node (Node Leaf 8 (Node Leaf 4096 Leaf)) 4152 Leaf) {4224} \<and>
   (\<exists>p s' t'. best_fit_malloc 128 bf_example = Some (Inr (p, s')) \<and> p \<noteq> 0 \<and>
      bf_inv s' t' (insert (p - 32) {4224}) \<and>
      (mmap_size (bf_sys s') = 4096 \<or> mmap_size (bf_sys s') = 8192 \<and> p = 8224)) \<and>
   ff_inv ff_example [4136, 4096, 8] {4192} \<and>
   (\<exists>p fs' xs'. first_fit_malloc 128 ff_example = Some (Inr (p, fs')) \<and> p \<noteq> 0 \<and>
      ff_inv fs' xs' (insert (p - 16) {4192}) \<and>
      (mmap_size (ff_sys fs') = 4096 \<or> mmap_size (ff_sys fs') = 8192 \<and> p = 8208))"
proof -
  have d: "(8::nat) dvd 128" by simp
  from allocate_succeeds_with_at_most_one_page[THEN conjunct1, of 128 bf_example
      "Node (Node Leaf 8 (Node Leaf 4096 Leaf)) 4152 Leaf" "{4224}", OF _ _ d]
    bf_example_inv
  have bf: "\<exists>p s' t'. best_fit_malloc 128 bf_example = Some (Inr (p, s')) \<and> p \<noteq> 0 \<and>
      bf_inv s' t' (insert (p - 32) {4224}) \<and>
      (mmap_size (bf_sys s') = 4096 \<or> mmap_size (bf_sys s') = 8192 \<and> p = 8224)"
    by (simp add: sizeof_best_fit_metadata_t_def bf_example_facts) blast
  from allocate_succeeds_with_at_most_one_page[THEN conjunct2, of 128 ff_example
      "[4136, 4096, 8]" "{4192}", OF _ _ d]
    ff_example_inv
  have ff: "\<exists>p fs' xs'. first_fit_malloc 128 ff_example = Some (Inr (p, fs')) \<and> p \<noteq> 0 \<and>
      ff_inv fs' xs' (insert (p - 16) {4192}) \<and>
      (mmap_size (ff_sys fs') = 4096 \<or> mmap_size (ff_sys fs') = 8192 \<and> p = 8208)"
    by (simp add: sizeof_first_fit_metadata_t_def ff_example_facts) blast
  from bf ff bf_example_inv ff_example_inv show ?thesis by simp
qed

text \<open>
  C7: releasing a live block puts the header at \<open>ptr - sizeof(header)\<close>, and no other,
  into the free collection; the size field at every address stays as it was, so no
  block is merged, resized or moved.  First-fit changes the header of no other block at
  all; best-fit relinks nodes of the tree but leaves every header outside the tree
  untouched, the released one included.
\<close>

theorem release_returns_exactly_the_block:
  "(bf_inv s t A \<and> a \<in> A \<longrightarrow>
      (\<exists>s' t'. best_fit_free (a + sizeof_best_fit_metadata_t) s = Some (Inr s') \<and>
         bf_inv s' t' (A - {a}) \<and> set_tree t' = insert a (set_tree t) \<and>
         (\<forall>b. bf_size (bf_mem s' b) = bf_size (bf_mem s b)) \<and>
         (\<forall>b. b \<notin> set_tree t \<longrightarrow> bf_mem s' b = bf_mem s b) \<and> bf_sys s' = bf_sys s)) \<and>
   (ff_inv fs xs fA \<and> a \<in> fA \<longrightarrow>
      (\<exists>fs'. first_fit_free (a + sizeof_first_fit_metadata_t) fs = Inr fs' \<and>
         ff_inv fs' (a # xs) (fA - {a}) \<and>
         (\<forall>b. ff_size (ff_mem fs' b) = ff_size (ff_mem fs b)) \<and>
         (\<forall>b. b \<noteq> a \<longrightarrow> ff_mem fs' b = ff_mem fs b) \<and> ff_sys fs' = ff_sys fs))"
proof (intro conjI impI)
  assume "bf_inv s t A \<and> a \<in> A"
  then have "bf_inv s t A" and "a \<in> A" by simp_all
  then show "\<exists>s' t'. best_fit_free (a + sizeof_best_fit_metadata_t) s = Some (Inr s') \<and>
         bf_inv s' t' (A - {a}) \<and> set_tree t' = insert a (set_tree t) \<and>
         (\<forall>b. bf_size (bf_mem s' b) = bf_size (bf_mem s b)) \<and>
         (\<forall>b. b \<notin> set_tree t \<longrightarrow> bf_mem s' b = bf_mem s b) \<and> bf_sys s' = bf_sys s"
    by (rule bf_free_inv)
next
  assume "ff_inv fs xs fA \<and> a \<in> fA"
  then have "ff_inv fs xs fA" and "a \<in> fA" by simp_all
  then show "\<exists>fs'. first_fit_free (a + sizeof_first_fit_metadata_t) fs = Inr fs' \<and>
         ff_inv fs' (a # xs) (fA - {a}) \<and>
         (\<forall>b. ff_size (ff_mem fs' b) = ff_size (ff_mem fs b)) \<and>
         (\<forall>b. b \<noteq> a \<longrightarrow> ff_mem fs' b = ff_mem fs b) \<and> ff_sys fs' = ff_sys fs"
    by (rule ff_free_inv)
qed

theorem release_returns_exactly_the_block_witness:
  "bf_inv bf_example (Node (Node Leaf 8 (Node Leaf 4096 Leaf)) 4152 Leaf) {4224} \<and>
   (\<exists>s' t'. best_fit_free 4256 bf_example = Some (Inr s') \<and> bf_inv s' t' {} \<and>
      set_tree t' = {4224, 8, 4096, 4152} \<and>
      map (\<lambda>b. bf_size (bf_mem s' b)) [8, 4096, 4152, 4224] = [0, 24, 40, 3936]) \<and>
   ff_inv ff_example [4136, 4096, 8] {4192} \<and>
   (\<exists>fs'. first_fit_free 4208 ff_example = Inr fs' \<and> ff_inv fs' [4192, 4136, 4096, 8] {} \<and>
      map (\<lambda>b. ff_size (ff_mem fs' b)) [4192, 4136, 4096, 8] = [3984, 40, 24, 0])"
proof -
  have "bf_inv bf_example (Node (Node Leaf 8 (Node Leaf 4096 Leaf)) 4152 Leaf) {4224} \<and>
      (4224::nat) \<in> {4224}"
    using bf_example_inv by simp
  from release_returns_exactly_the_block[THEN conjunct1, rule_format, OF this]
  obtain s' t' where
    f: "best_fit_free (4224 + sizeof_best_fit_metadata_t) bf_example = Some (Inr s')"
    and i: "bf_inv s' t' ({4224} - {4224})"
    and st: "set_tree t' = insert 4224 (set_tree (Node (Node Leaf 8 (Node Leaf 4096 Leaf)) 4152 Leaf))"
    and sz: "\<forall>b. bf_size (bf_mem s' b) = bf_size (bf_mem bf_example b)"
    by blast
  have bf: "\<exists>s' t'. best_fit_free 4256 bf_example = Some (Inr s') \<and> bf_inv s' t' {} \<and>
      set_tree t' = {4224, 8, 4096, 4152} \<and>
      map (\<lambda>b. bf_size (bf_mem s' b)) [8, 4096, 4152, 4224] = [0, 24, 40, 3936]"
  proof (intro exI[of _ s'] exI[of _ t'] conjI)
    show "best_fit_free 4256 bf_example = Some (Inr s')"
      using f by (simp add: sizeof_best_fit_metadata_t_def)
    show "bf_inv s' t' {}" using i by simp
    show "set_tree t' = {4224, 8, 4096, 4152}" using st by auto
    show "map (\<lambda>b. bf_size (bf_mem s' b)) [8, 4096, 4152, 4224] = [0, 24, 40, 3936]"
      by (simp add: sz bf_example_facts)
  qed
  have "ff_inv ff_example [4136, 4096, 8] {4192} \<and> (4192::nat) \<in> {4192}"
    using ff_example_inv by simp
  from release_returns_exactly_the_block[THEN conjunct2, rule_format, OF this]
  obtain fs' where
    f: "first_fit_free (4192 + sizeof_first_fit_metadata_t) ff_example = Inr fs'"
    and i: "ff_inv fs' (4192 # [4136, 4096, 8]) ({4192} - {4192})"
    and sz: "\<forall>b. ff_size (ff_mem fs' b) = ff_size (ff_mem ff_example b)"
    by blast
  have ff: "\<exists>fs'. first_fit_free 4208 ff_example = Inr fs' \<and>
      ff_inv fs' [4192, 4136, 4096, 8] {} \<and>
      map (\<lambda>b. ff_size (ff_mem fs' b)) [4192, 4136, 4096, 8] = [3984, 40, 24, 0]"
  proof (intro exI[of _ fs'] conjI)
    show "first_fit_free 4208 ff_example = Inr fs'"
      using f by (simp add: sizeof_first_fit_metadata_t_def)
    show "ff_inv fs' [4192, 4136, 4096, 8] {}" using i by simp
    show "map (\<lambda>b. ff_size (ff_mem fs' b)) [4192, 4136, 4096, 8] = [3984, 40, 24, 0]"
      by (simp add: sz ff_example_facts)
  qed
  from bf ff bf_example_inv ff_example_inv show ?thesis by simp
qed

text \<open>
  C10: the header of a block \<open>best_fit_malloc\<close> returns has no children and height 1.
  \<open>best_fit_free\<close> writes none of its fields: it links the header into the tree as it
  finds it, and the header is a leaf of the tree afterwards because of what
  \<open>best_fit_malloc\<close> left in it.
\<close>

theorem best_fit_malloc_returns_detached_header:
  assumes "bf_inv s t A" and "best_fit_malloc R s = Some (Inr (p, s'))"
  shows "bf_left (bf_mem s' (p - sizeof_best_fit_metadata_t)) = 0 \<and>
     bf_right (bf_mem s' (p - sizeof_best_fit_metadata_t)) = 0 \<and>
     bf_height (bf_mem s' (p - sizeof_best_fit_metadata_t)) = 1 \<and>
     (\<exists>s'' t''. best_fit_free p s' = Some (Inr s'') \<and>
        bf_tree_at (bf_mem s'') (bf_free_head s'') t'' \<and>
        p - sizeof_best_fit_metadata_t \<in> set_tree t'' \<and>
        bf_mem s'' (p - sizeof_best_fit_metadata_t) =
          bf_mem s' (p - sizeof_best_fit_metadata_t))"
proof -
  have R: "R \<le> 4096 - sizeof_best_fit_metadata_t"
  proof (rule ccontr)
    assume "\<not> R \<le> 4096 - sizeof_best_fit_metadata_t"
    then have "4096 - sizeof_best_fit_metadata_t < R" by simp
    from best_fit_malloc_diverges[OF assms(1) this] assms(2) show False by simp
  qed
  from bf_malloc_total[OF assms(1) R] assms(2) obtain a t' where
    p: "p = a + sizeof_best_fit_metadata_t" and inv': "bf_inv s' t' (insert a A)" by auto
  from inv' have "bf_left (bf_mem s' a) = 0 \<and> bf_right (bf_mem s' a) = 0 \<and>
      bf_height (bf_mem s' a) = 1" and at: "a \<notin> set_tree t'"
    by (auto simp: bf_inv_def)
  moreover from bf_free_inv[OF inv', of a] obtain s'' t'' where
    "best_fit_free (a + sizeof_best_fit_metadata_t) s' = Some (Inr s'')"
    "bf_inv s'' t'' (insert a A - {a})" "set_tree t'' = insert a (set_tree t')"
    "\<forall>b. b \<notin> set_tree t' \<longrightarrow> bf_mem s'' b = bf_mem s' b" by auto
  ultimately show ?thesis
    unfolding p
    by (auto simp: bf_inv_def intro!: exI[of _ s''] exI[of _ t''])
qed

theorem best_fit_malloc_returns_detached_header_witness:
  "bf_inv bf_example (Node (Node Leaf 8 (Node Leaf 4096 Leaf)) 4152 Leaf) {4224} \<and>
   (\<exists>s'. best_fit_malloc 20 bf_example = Some (Inr (4128, s')) \<and>
      bf_left (bf_mem s' 4096) = 0 \<and> bf_right (bf_mem s' 4096) = 0 \<and>
      bf_height (bf_mem s' 4096) = 1 \<and>
      (\<exists>s'' t''. best_fit_free 4128 s' = Some (Inr s'') \<and>
         bf_tree_at (bf_mem s'') (bf_free_head s'') t'' \<and> 4096 \<in> set_tree t'' \<and>
         bf_mem s'' 4096 = bf_mem s' 4096))"
proof -
  have "best_fit_search (bf_mem bf_example) 20 (bf_free_head bf_example) 0 = Some 4096"
    by (simp add: best_fit_search.simps bf_example_facts)
  from bf_search_found[OF bf_example_inv this] bf_malloc_found[OF bf_example_inv, of 20]
  obtain s' where m: "best_fit_malloc 20 bf_example = Some (Inr (4128, s'))"
    by (auto simp: sizeof_best_fit_metadata_t_def)
  from best_fit_malloc_returns_detached_header[OF bf_example_inv m] m bf_example_inv
  show ?thesis by (auto simp: sizeof_best_fit_metadata_t_def)
qed

section \<open>The workload harness: tags\<close>

text \<open>
  C8 (every object is stamped with a non-zero tag): not on the code.  \<open>run_challenge\<close>
  starts with \<open>char tag = 0\<close> and skips 0 only after an increment, so the first object
  of a challenge is recorded, and its payload filled, with tag 0.  Here the first object
  of a first-fit challenge: 128 bytes, lifetime 1, allocated in epoch 0.
\<close>

theorem first_object_has_tag_zero:
  "\<exists>h. allocate_objects first_fit_malloc 0 [(128, 1, False)]
          (challenge_start (first_fit_initialize ff_boot) (\<lambda>_. 0)) = Some (Inr h) \<and>
        h_objects h ! 1 = [\<lparr>obj_ptr = 4112, obj_size = 128, obj_tag = 0\<rparr>] \<and>
        h_bytes h 4112 = 0 \<and> h_bytes h (4112 + 128 - 1) = 0 \<and> h_tag h = 1"
  by (simp add: ff_eval ff_boot_def challenge_start_def epochs_per_cycle_def vector_push_def
      memset_def)

lemma vector_push_objects:
  assumes "v \<in> set (vector_push objects i object)" and "x \<in> set v"
  shows "x = object \<or> (\<exists>v0\<in>set objects. x \<in> set v0)"
proof -
  from assms(1) have "v \<in> insert (objects ! i @ [object]) (set objects)"
    unfolding vector_push_def using set_update_subset_insert by fastforce
  then consider "v = objects ! i @ [object]" | "v \<in> set objects" by blast
  then show ?thesis
  proof cases
    case 1
    show ?thesis
    proof (cases "i < length objects")
      case True
      with 1 assms(2) show ?thesis by (auto intro: nth_mem)
    next
      case False
      then have "vector_push objects i object = objects"
        by (simp add: vector_push_def list_update_beyond)
      with assms show ?thesis by auto
    qed
  next
    case 2
    with assms(2) show ?thesis by blast
  qed
qed

text \<open>
  Once \<open>tag\<close> is not 0 it stays so, and every object recorded from then on has a tag
  other than 0: the increment skips 0.
\<close>

lemma allocate_objects_tags:
  assumes "allocate_objects malloc_func epoch draws h = Some (Inr h')" and "h_tag h \<noteq> 0"
  shows "h_tag h' \<noteq> 0 \<and>
     (\<forall>v\<in>set (h_objects h'). \<forall>x\<in>set v. obj_tag x = 0 \<longrightarrow> (\<exists>v0\<in>set (h_objects h). x \<in> set v0))"
  using assms
proof (induction draws arbitrary: h)
  case Nil
  then show ?case by auto
next
  case (Cons d draws)
  obtain sz lifetime never_freed where d: "d = (sz, lifetime, never_freed)" by (cases d)
  let ?h1 = "h\<lparr>h_allocated_size := h_allocated_size h + sz\<rparr>"
  from Cons.prems(1) d obtain ptr a where
    m: "malloc_func sz (h_alloc ?h1) = Some (Inr (ptr, a))"
    by (auto simp: Let_def and_then_def split: option.splits sum.splits)
  define object where "object = \<lparr>obj_ptr = ptr, obj_size = sz, obj_tag = h_tag h\<rparr>"
  define tag2 where "tag2 = (if h_tag h + 1 = 0 then h_tag h + 1 + 1 else h_tag h + 1)"
  define h4 where "h4 =
    ?h1\<lparr>h_alloc := a, h_bytes := memset (h_bytes ?h1) ptr (h_tag ?h1) sz, h_tag := tag2,
        h_objects := vector_push (h_objects h)
          (if never_freed then epochs_per_cycle else (epoch + lifetime) mod epochs_per_cycle)
          object\<rparr>"
  from Cons.prems(1) d m have rest: "allocate_objects malloc_func epoch draws h4 = Some (Inr h')"
    by (simp add: Let_def h4_def tag2_def object_def split: if_splits)
  have t4: "h_tag h4 \<noteq> 0" by (simp add: h4_def tag2_def)
  from Cons.IH[OF rest t4] have tag': "h_tag h' \<noteq> 0"
    and old: "\<forall>v\<in>set (h_objects h'). \<forall>x\<in>set v. obj_tag x = 0 \<longrightarrow>
      (\<exists>v0\<in>set (h_objects h4). x \<in> set v0)" by simp_all
  have "\<exists>v0\<in>set (h_objects h). x \<in> set v0"
    if v: "v \<in> set (h_objects h')" and x: "x \<in> set v" and z: "obj_tag x = 0" for v x
  proof -
    from old v x z obtain v4 where v4: "v4 \<in> set (h_objects h4)" "x \<in> set v4" by blast
    from v4(1) have "v4 \<in> set (vector_push (h_objects h)
        (if never_freed then epochs_per_cycle else (epoch + lifetime) mod epochs_per_cycle)
        object)" by (simp add: h4_def)
    from vector_push_objects[OF this v4(2)] z Cons.prems(2) show ?thesis
      by (auto simp: object_def)
  qed
  with tag' show ?case by blast
qed

lemma and_then_assoc:
  "and_then (and_then x f) g = and_then x (\<lambda>v. and_then (f v) g)"
  by (simp add: and_then_def split: option.splits sum.splits)

lemma release_objects_bytes:
  "release_objects free_func objs h = Some (Inr h') \<Longrightarrow> h_bytes h' = h_bytes h"
proof (induction objs arbitrary: h)
  case Nil
  then show ?case by simp
next
  case (Cons object rest)
  let ?h1 = "h\<lparr>h_freed_size := h_freed_size h + obj_size object\<rparr>"
  from Cons.prems have ok: "\<not> tag_broken (h_bytes h) object"
    by (auto simp: Let_def split: if_splits)
  with Cons.prems obtain a where
    "free_func (obj_ptr object) (h_alloc h) = Some (Inr a)"
    "release_objects free_func rest (?h1\<lparr>h_alloc := a\<rparr>) = Some (Inr h')"
    by (auto simp: Let_def and_then_def split: option.splits sum.splits)
  from Cons.IH[OF this(2)] show ?case by simp
qed

lemma release_objects_append:
  "release_objects free_func (pre @ rest) h =
     and_then (release_objects free_func pre h) (\<lambda>h1. release_objects free_func rest h1)"
proof (induction pre arbitrary: h)
  case Nil
  then show ?case by simp
next
  case (Cons object pre)
  show ?case
    by (simp add: Let_def and_then_assoc Cons.IH)
qed

lemma release_objects_intact:
  "release_objects free_func objs h = Some (Inr h') \<Longrightarrow>
     \<forall>object \<in> set objs. \<not> tag_broken (h_bytes h) object"
proof (induction objs arbitrary: h)
  case Nil
  then show ?case by simp
next
  case (Cons object rest)
  let ?h1 = "h\<lparr>h_freed_size := h_freed_size h + obj_size object\<rparr>"
  from Cons.prems have ok: "\<not> tag_broken (h_bytes h) object"
    by (auto simp: Let_def split: if_splits)
  with Cons.prems obtain a where
    "release_objects free_func rest (?h1\<lparr>h_alloc := a\<rparr>) = Some (Inr h')"
    by (auto simp: Let_def and_then_def split: option.splits sum.splits)
  from Cons.IH[OF this] ok show ?case by simp
qed

text \<open>
  C9: the release loop checks the first and the last byte of each object against the
  recorded tag before it calls \<open>free_func\<close>, and a mismatch is fatal.  When \<open>object\<close>
  is the first object of the vector whose tag is broken, the loop is the loop over the
  objects before it followed by the abort: \<open>free_func\<close> is applied to nothing else, so
  neither to \<open>object\<close> nor to what follows it.  And a loop that returns has found every
  tag intact.
\<close>

theorem release_checks_tag_before_free:
  "(tag_broken (h_bytes h) object \<longrightarrow>
      release_objects free_func (pre @ object # post) h =
        and_then (release_objects free_func pre h) (\<lambda>h1. Some (Inl AssertFailed))) \<and>
   (release_objects free_func objs h = Some (Inr h') \<longrightarrow>
      (\<forall>object \<in> set objs. \<not> tag_broken (h_bytes h) object))"
proof (intro conjI impI)
  assume broken: "tag_broken (h_bytes h) object"
  have "release_objects free_func (object # post) h1 = Some (Inl AssertFailed)"
    if "release_objects free_func pre h = Some (Inr h1)" for h1
    using release_objects_bytes[OF that] broken by (simp add: Let_def)
  then show "release_objects free_func (pre @ object # post) h =
      and_then (release_objects free_func pre h) (\<lambda>h1. Some (Inl AssertFailed))"
    unfolding release_objects_append
    by (cases "release_objects free_func pre h") (auto simp: and_then_def split: sum.splits)
next
  assume "release_objects free_func objs h = Some (Inr h')"
  then show "\<forall>object \<in> set objs. \<not> tag_broken (h_bytes h) object"
    by (rule release_objects_intact)
qed

theorem release_checks_tag_before_free_witness:
  "tag_broken (memset (\<lambda>_. 0) 4112 1 128) \<lparr>obj_ptr = 4400, obj_size = 64, obj_tag = 2\<rparr> \<and>
   release_objects (\<lambda>p a. Some (first_fit_free p a))
     ([\<lparr>obj_ptr = 4112, obj_size = 128, obj_tag = 1\<rparr>] @
      \<lparr>obj_ptr = 4400, obj_size = 64, obj_tag = 2\<rparr> #
      [\<lparr>obj_ptr = 4256, obj_size = 128, obj_tag = 1\<rparr>])
     \<lparr>h_alloc = first_fit_initialize ff_boot, h_bytes = memset (\<lambda>_. 0) 4112 1 128,
      h_tag = 3, h_objects = [], h_allocated_size = 320, h_freed_size = 0\<rparr>
   = Some (Inl AssertFailed)"
proof -
  let ?b = "memset (\<lambda>_. 0) 4112 1 128"
  let ?o = "\<lparr>obj_ptr = 4400, obj_size = 64, obj_tag = 2\<rparr>"
  let ?h = "\<lparr>h_alloc = first_fit_initialize ff_boot, h_bytes = ?b,
      h_tag = 3, h_objects = [], h_allocated_size = 320, h_freed_size = 0\<rparr>"
  have broken: "tag_broken (h_bytes ?h) ?o"
    by (simp add: tag_broken_def memset_def)
  have pre: "release_objects (\<lambda>p a. Some (first_fit_free p a))
      [\<lparr>obj_ptr = 4112, obj_size = 128, obj_tag = 1\<rparr>] ?h \<noteq> None \<and>
    (\<forall>e. release_objects (\<lambda>p a. Some (first_fit_free p a))
      [\<lparr>obj_ptr = 4112, obj_size = 128, obj_tag = 1\<rparr>] ?h \<noteq> Some (Inl e))"
    by (simp add: tag_broken_def memset_def ff_eval ff_boot_def)
  from release_checks_tag_before_free[of ?h ?o "\<lambda>p a. Some (first_fit_free p a)"
      "[\<lparr>obj_ptr = 4112, obj_size = 128, obj_tag = 1\<rparr>]"
      "[\<lparr>obj_ptr = 4256, obj_size = 128, obj_tag = 1\<rparr>]"] broken pre
  show ?thesis
    by (auto simp: and_then_def split: option.splits sum.splits)
qed

end
